theory Spec2Isabelle
  imports Complex_Main "HOL-Library.Monad_Syntax"
begin

unbundle bit_operations_syntax

section \<open>Coordinates\<close>

text \<open>
  \<^verbatim>\<open>class GeoCoordinate { lat: number; long: number; ... }\<close>
  A JavaScript number is modelled as a real: the interval logic of the codec only adds two
  bounds, halves the sum and compares, and the claims below are about the order of the
  bounds, not about rounding.
\<close>

record GeoCoordinate =
  lat :: real
  long :: real

definition mkCoord :: "real \<Rightarrow> real \<Rightarrow> GeoCoordinate" where
  "mkCoord lattitude longitude = \<lparr>lat = lattitude, long = longitude\<rparr>"

definition latRadians :: "GeoCoordinate \<Rightarrow> real" where
  "latRadians c = pi * lat c / 180"

text \<open>\<^verbatim>\<open>distanceTo\<close>: spherical law of cosines, in kilometres.\<close>

definition distanceTo :: "GeoCoordinate \<Rightarrow> GeoCoordinate \<Rightarrow> real" where
  "distanceTo this whereTo =
     (if lat this = lat whereTo \<and> long this = long whereTo then 0
      else
        let thetaInRadians = (long this - long whereTo) * pi / 180;
            distance = sin (latRadians this) * sin (latRadians whereTo) +
                       cos (latRadians this) * cos (latRadians whereTo) * cos thetaInRadians;
            distance = (if distance > 1 then 1 else distance)
        in arccos distance * (180 / pi) * 60 * 1.1515 * 1.609344)"

section \<open>Constants of the geohash class\<close>

definition BITS :: "int list" where
  "BITS = [16, 8, 4, 2, 1]"

definition BASE32 :: string where
  "BASE32 = ''0123456789bcdefghjkmnpqrstuvwxyz''"

datatype cardinal = North | South | East | West

datatype direction = Card cardinal | NorthWest | NorthEast | SouthEast | SouthWest

datatype evenness = EvenLen | OddLen

fun NEIGHBORS :: "cardinal \<Rightarrow> evenness \<Rightarrow> string" where
  "NEIGHBORS East EvenLen = ''bc01fg45238967deuvhjyznpkmstqrwx''"
| "NEIGHBORS East OddLen = ''p0r21436x8zb9dcf5h7kjnmqesgutwvy''"
| "NEIGHBORS West EvenLen = ''238967debc01fg45kmstqrwxuvhjyznp''"
| "NEIGHBORS West OddLen = ''14365h7k9dcfesgujnmqp0r2twvyx8zb''"
| "NEIGHBORS North EvenLen = ''p0r21436x8zb9dcf5h7kjnmqesgutwvy''"
| "NEIGHBORS North OddLen = ''bc01fg45238967deuvhjyznpkmstqrwx''"
| "NEIGHBORS South EvenLen = ''14365h7k9dcfesgujnmqp0r2twvyx8zb''"
| "NEIGHBORS South OddLen = ''238967debc01fg45kmstqrwxuvhjyznp''"

fun BORDER :: "cardinal \<Rightarrow> evenness \<Rightarrow> string" where
  "BORDER East EvenLen = ''bcfguvyz''"
| "BORDER East OddLen = ''prxz''"
| "BORDER West EvenLen = ''0145hjnp''"
| "BORDER West OddLen = ''028b''"
| "BORDER North EvenLen = ''prxz''"
| "BORDER North OddLen = ''bcfguvyz''"
| "BORDER South EvenLen = ''028b''"
| "BORDER South OddLen = ''0145hjnp''"

section \<open>JavaScript string primitives\<close>

text \<open>
  \<^verbatim>\<open>s.indexOf(needle)\<close>: the first position at which \<open>needle\<close> occurs in \<open>s\<close>, or \<open>-1\<close>.
  The empty needle occurs at position 0 of every string.
\<close>

fun indexOf_from :: "string \<Rightarrow> string \<Rightarrow> int \<Rightarrow> int" where
  "indexOf_from [] needle k = (if needle = [] then k else -1)"
| "indexOf_from (x # xs) needle k =
     (if take (length needle) (x # xs) = needle then k else indexOf_from xs needle (k + 1))"

definition indexOf :: "string \<Rightarrow> string \<Rightarrow> int" where
  "indexOf s needle = indexOf_from s needle 0"

text \<open>
  \<^verbatim>\<open>prefix + s[i]\<close>: an index outside the string reads \<^verbatim>\<open>undefined\<close>, which string
  concatenation renders as the nine characters \<^verbatim>\<open>undefined\<close>.
\<close>

definition appendCharAt :: "string \<Rightarrow> string \<Rightarrow> int \<Rightarrow> string" where
  "appendCharAt prefix s i =
     prefix @ (if 0 \<le> i \<and> i < int (length s) then [s ! nat i] else ''undefined'')"

text \<open>\<^verbatim>\<open>hash.slice(-1)\<close> and \<^verbatim>\<open>hash.substr(0, hash.length - 1)\<close>.\<close>

definition sliceLast :: "string \<Rightarrow> string" where
  "sliceLast hash = drop (length hash - 1) hash"

definition dropLast :: "string \<Rightarrow> string" where
  "dropLast hash = take (length hash - 1) hash"

section \<open>Decoding\<close>

text \<open>The two-element arrays \<^verbatim>\<open>lat\<close> and \<^verbatim>\<open>lon\<close> are pairs (index 0, index 1).\<close>

definition refine_interval :: "real \<times> real \<Rightarrow> int \<Rightarrow> int \<Rightarrow> real \<times> real" where
  "refine_interval interval cd msk =
     (if cd AND msk \<noteq> 0
      then ((fst interval + snd interval) / 2, snd interval)
      else (fst interval, (fst interval + snd interval) / 2))"

record dec_state =
  d_is_even :: bool
  d_lat :: "real \<times> real"
  d_lon :: "real \<times> real"
  d_lat_err :: real
  d_lon_err :: real

definition dec_init :: dec_state where
  "dec_init = \<lparr>d_is_even = True, d_lat = (-90, 90), d_lon = (-180, 180),
                d_lat_err = 90, d_lon_err = 180\<rparr>"

text \<open>Body of the inner loop over \<^verbatim>\<open>j\<close>, for the mask \<open>msk\<close> = \<^verbatim>\<open>BITS[j]\<close>.\<close>

definition decode_bit :: "int \<Rightarrow> dec_state \<Rightarrow> int \<Rightarrow> dec_state" where
  "decode_bit cd st msk =
     (if d_is_even st
      then st\<lparr>d_lon_err := d_lon_err st / 2, d_lon := refine_interval (d_lon st) cd msk,
              d_is_even := False\<rparr>
      else st\<lparr>d_lat_err := d_lat_err st / 2, d_lat := refine_interval (d_lat st) cd msk,
              d_is_even := True\<rparr>)"

text \<open>Body of the outer loop over \<^verbatim>\<open>i\<close>, for the character \<^verbatim>\<open>this.geohash[i]\<close>.\<close>

definition decode_char :: "dec_state \<Rightarrow> char \<Rightarrow> dec_state" where
  "decode_char st c = (let cd = indexOf BASE32 [c] in foldl (decode_bit cd) st BITS)"

definition decode_loop :: "string \<Rightarrow> dec_state" where
  "decode_loop geohash = foldl decode_char dec_init geohash"

text \<open>
  \<^verbatim>\<open>decodeGeohash\<close> returns the three coordinates that the constructor binds to
  \<^verbatim>\<open>northWest\<close>, \<^verbatim>\<open>southEast\<close> and \<^verbatim>\<open>centroid\<close>, in this order.
\<close>

definition decodeGeohash :: "string \<Rightarrow> GeoCoordinate \<times> GeoCoordinate \<times> GeoCoordinate" where
  "decodeGeohash geohash =
     (let st = decode_loop geohash; lat = d_lat st; lon = d_lon st
      in (mkCoord (fst lat) (fst lon),
          mkCoord (snd lat) (snd lon),
          mkCoord ((fst lat + snd lat) / 2) ((fst lon + snd lon) / 2)))"

section \<open>Encoding\<close>

record enc_state =
  h_is_even :: bool
  h_bit :: nat
  h_ch :: int
  h_lat :: "real \<times> real"
  h_lon :: "real \<times> real"
  h_geohash :: string

definition enc_init :: enc_state where
  "enc_init = \<lparr>h_is_even = True, h_bit = 0, h_ch = 0, h_lat = (-90, 90), h_lon = (-180, 180),
                h_geohash = []\<rparr>"

text \<open>One pass through the body of the \<^verbatim>\<open>while\<close> loop of \<^verbatim>\<open>hashString\<close>.\<close>

definition hashString_body :: "GeoCoordinate \<Rightarrow> enc_state \<Rightarrow> enc_state" where
  "hashString_body coordinate s =
     (let s1 =
        (if h_is_even s then
           (let mid = (fst (h_lon s) + snd (h_lon s)) / 2 in
            if long coordinate > mid
            then s\<lparr>h_ch := h_ch s OR (BITS ! h_bit s), h_lon := (mid, snd (h_lon s))\<rparr>
            else s\<lparr>h_lon := (fst (h_lon s), mid)\<rparr>)
         else
           (let mid = (fst (h_lat s) + snd (h_lat s)) / 2 in
            if lat coordinate > mid
            then s\<lparr>h_ch := h_ch s OR (BITS ! h_bit s), h_lat := (mid, snd (h_lat s))\<rparr>
            else s\<lparr>h_lat := (fst (h_lat s), mid)\<rparr>));
          s2 = s1\<lparr>h_is_even := \<not> h_is_even s1\<rparr>
      in if h_bit s2 < 4 then s2\<lparr>h_bit := h_bit s2 + 1\<rparr>
         else s2\<lparr>h_geohash := appendCharAt (h_geohash s2) BASE32 (h_ch s2), h_bit := 0, h_ch := 0\<rparr>)"

function hashString_loop :: "GeoCoordinate \<Rightarrow> int \<Rightarrow> enc_state \<Rightarrow> enc_state" where
  "hashString_loop coordinate precision s =
     (if int (length (h_geohash s)) < precision
      then hashString_loop coordinate precision (hashString_body coordinate s)
      else s)"
  by pat_completeness auto
termination
  by (relation "measure (\<lambda>(coordinate, precision, s).
         nat (5 * (precision - int (length (h_geohash s)))) + (4 - h_bit s))")
     (auto simp: hashString_body_def appendCharAt_def Let_def)

definition hashString :: "GeoCoordinate \<Rightarrow> int \<Rightarrow> string" where
  "hashString coordinate precision = h_geohash (hashString_loop coordinate precision enc_init)"

section \<open>The geohash object\<close>

record GeoHash =
  coordinate :: GeoCoordinate
  northWest :: GeoCoordinate
  southEast :: GeoCoordinate
  northEast :: GeoCoordinate
  southWest :: GeoCoordinate
  centroid :: GeoCoordinate
  geohash :: string

text \<open>\<^verbatim>\<open>new GeoHash(coordinate: string)\<close>\<close>

definition GeoHash_of_string :: "string \<Rightarrow> GeoHash" where
  "GeoHash_of_string hash =
     (case decodeGeohash hash of (nw, se, cen) \<Rightarrow>
        \<lparr>coordinate = cen, northWest = nw, southEast = se,
         northEast = mkCoord (lat nw) (long se),
         southWest = mkCoord (lat se) (long nw),
         centroid = cen, geohash = hash\<rparr>)"

text \<open>\<^verbatim>\<open>new GeoHash(coordinate: GeoCoordinate, precision)\<close>\<close>

definition GeoHash_of_coordinate :: "GeoCoordinate \<Rightarrow> int \<Rightarrow> GeoHash" where
  "GeoHash_of_coordinate c precision =
     (let hash = hashString c precision in
      case decodeGeohash hash of (nw, se, cen) \<Rightarrow>
        \<lparr>coordinate = c, northWest = nw, southEast = se,
         northEast = mkCoord (lat nw) (long se),
         southWest = mkCoord (lat se) (long nw),
         centroid = cen, geohash = hash\<rparr>)"

definition getAllCoordinates :: "GeoHash \<Rightarrow> GeoCoordinate list" where
  "getAllCoordinates g = [northWest g, northEast g, southEast g, southWest g, centroid g]"

section \<open>Neighbours\<close>

text \<open>
  \<^verbatim>\<open>getNeighborAsHashString\<close> calls itself on the parent prefix whenever the last character
  is found in the border string; nothing bounds that recursion from below, so the result
  is an option and \<open>None\<close> stands for a call that never returns.
\<close>

partial_function (option) getNeighborAsHashString :: "direction \<Rightarrow> string \<Rightarrow> string option" where
  "getNeighborAsHashString direction hash =
     (let lastChar = sliceLast hash;
          evenness = (if length hash mod 2 \<noteq> 0 then OddLen else EvenLen);
          base = dropLast hash
      in case direction of
           Card dir \<Rightarrow>
             Option.bind
               (if indexOf (BORDER dir evenness) lastChar \<noteq> -1
                then getNeighborAsHashString direction base
                else Some base)
               (\<lambda>base. Some (appendCharAt base BASE32 (indexOf (NEIGHBORS dir evenness) lastChar)))
         | NorthWest \<Rightarrow>
             Option.bind (getNeighborAsHashString (Card North) hash)
               (\<lambda>base. getNeighborAsHashString (Card West) base)
         | NorthEast \<Rightarrow>
             Option.bind (getNeighborAsHashString (Card North) hash)
               (\<lambda>base. getNeighborAsHashString (Card East) base)
         | SouthEast \<Rightarrow>
             Option.bind (getNeighborAsHashString (Card South) hash)
               (\<lambda>base. getNeighborAsHashString (Card East) base)
         | SouthWest \<Rightarrow>
             Option.bind (getNeighborAsHashString (Card South) hash)
               (\<lambda>base. getNeighborAsHashString (Card West) base))"

declare getNeighborAsHashString.simps [code]

definition getAllNeighborsAsHashStrings :: "string \<Rightarrow> string list option" where
  "getAllNeighborsAsHashStrings hash =
     those [getNeighborAsHashString NorthWest hash,
            getNeighborAsHashString (Card North) hash,
            getNeighborAsHashString NorthEast hash,
            getNeighborAsHashString (Card East) hash,
            getNeighborAsHashString SouthEast hash,
            getNeighborAsHashString (Card South) hash,
            getNeighborAsHashString SouthWest hash,
            getNeighborAsHashString (Card West) hash]"

section \<open>Radius search\<close>

text \<open>
  \<^verbatim>\<open>o.getAllCoordinates().map(o => o.distanceTo(this.centroid)).filter(o => o <= distance).length\<close>
\<close>

definition pointsInRange :: "GeoHash \<Rightarrow> real \<Rightarrow> GeoHash \<Rightarrow> nat" where
  "pointsInRange this distance block =
     length (filter (\<lambda>d. d \<le> distance)
               (map (\<lambda>p. distanceTo p (centroid this)) (getAllCoordinates block)))"

text \<open>
  The \<^verbatim>\<open>while\<close> loop of \<^verbatim>\<open>countHashesUntilDistance\<close>, on the variables
  \<^verbatim>\<open>hash\<close>, \<^verbatim>\<open>counter\<close> and \<^verbatim>\<open>pointsInScope\<close>. It runs until a block has fewer than
  \<^verbatim>\<open>points\<close> points in range, which may be never.
\<close>

partial_function (option) countHashes_loop ::
  "GeoHash \<Rightarrow> real \<Rightarrow> cardinal \<Rightarrow> nat \<Rightarrow> string \<Rightarrow> nat \<Rightarrow> nat \<Rightarrow> nat option" where
  "countHashes_loop this distance direction points hash counter pointsInScope =
     (if pointsInScope \<ge> points then
        do {
          hash' \<leftarrow> getNeighborAsHashString (Card direction) hash;
          let currentBlock = GeoHash_of_string hash';
          countHashes_loop this distance direction points hash' (counter + 1)
            (pointsInRange this distance currentBlock)
        }
      else Some counter)"

declare countHashes_loop.simps [code]

definition countHashesUntilDistance :: "GeoHash \<Rightarrow> real \<Rightarrow> cardinal \<Rightarrow> nat \<Rightarrow> nat option" where
  "countHashesUntilDistance this distance direction points =
     countHashes_loop this distance direction points (geohash this) 0 5"

text \<open>
  The inner \<^verbatim>\<open>for\<close> loop over \<^verbatim>\<open>westCounter\<close>; the first argument is the number of
  passes still to run.
\<close>

fun columns_loop :: "nat \<Rightarrow> string \<Rightarrow> string \<Rightarrow> GeoHash list \<Rightarrow> GeoHash list option" where
  "columns_loop 0 currentWest currentEast hashes = Some hashes"
| "columns_loop (Suc k) currentWest currentEast hashes =
     do {
       currentWest' \<leftarrow> getNeighborAsHashString (Card West) currentWest;
       currentEast' \<leftarrow> getNeighborAsHashString (Card East) currentEast;
       columns_loop k currentWest' currentEast'
         (hashes @ [GeoHash_of_string currentWest', GeoHash_of_string currentEast'])
     }"

text \<open>
  The outer \<^verbatim>\<open>for\<close> loops over \<^verbatim>\<open>northCounter\<close> and \<^verbatim>\<open>southCounter\<close>: the two
  bodies differ only in the direction of the last step. The first numeric argument is the
  number of passes still to run, the second is \<^verbatim>\<open>searchWest\<close>.
\<close>

fun rows_loop ::
  "cardinal \<Rightarrow> nat \<Rightarrow> nat \<Rightarrow> string \<Rightarrow> GeoHash list \<Rightarrow> GeoHash list option" where
  "rows_loop dir 0 searchWest currentRow hashes = Some hashes"
| "rows_loop dir (Suc k) searchWest currentRow hashes =
     do {
       hashes' \<leftarrow> columns_loop searchWest currentRow currentRow
                   (hashes @ [GeoHash_of_string currentRow]);
       currentRow' \<leftarrow> getNeighborAsHashString (Card dir) currentRow;
       rows_loop dir k searchWest currentRow' hashes'
     }"

text \<open>
  The candidate blocks pushed by the two outer loops. Both loops are bounded by
  \<^verbatim>\<open>searchNorth\<close> in the source; \<^verbatim>\<open>searchSouth\<close> is computed and not read again.
\<close>

definition candidateHashes :: "GeoHash \<Rightarrow> real \<Rightarrow> nat \<Rightarrow> GeoHash list option" where
  "candidateHashes this distance points =
     do {
       searchNorth \<leftarrow> countHashesUntilDistance this distance North points;
       searchSouth \<leftarrow> countHashesUntilDistance this distance South points;
       searchWest \<leftarrow> countHashesUntilDistance this distance West points;
       hashes \<leftarrow> rows_loop North searchNorth searchWest (geohash this) [];
       currentRow \<leftarrow> getNeighborAsHashString (Card South) (geohash this);
       rows_loop South searchNorth searchWest currentRow hashes
     }"

definition getAllHashStringsWithinRadius :: "GeoHash \<Rightarrow> real \<Rightarrow> nat \<Rightarrow> string list option" where
  "getAllHashStringsWithinRadius this distance points =
     do {
       hashes \<leftarrow> candidateHashes this distance points;
       let hashesInRange = filter (\<lambda>block. pointsInRange this distance block \<ge> points) hashes;
       Some (map geohash hashesInRange)
     }"

section \<open>Outcomes\<close>

text \<open>
  The source contains no \<^verbatim>\<open>throw\<close>: encoding and decoding always return a value, and a
  neighbour lookup that returns at all returns a string. The error kinds are those a guarded
  reimplementation would report; the operations below never produce one.
\<close>

datatype error = InvalidPrecision | InvalidHashCharacter | EmptyHash

definition encode :: "GeoCoordinate \<Rightarrow> int \<Rightarrow> error + string" where
  "encode c precision = Inr (hashString c precision)"

definition decode :: "string \<Rightarrow> error + GeoHash" where
  "decode hash = Inr (GeoHash_of_string hash)"

definition neighbor :: "string \<Rightarrow> direction \<Rightarrow> (error + string) option" where
  "neighbor hash direction = map_option Inr (getNeighborAsHashString direction hash)"

section \<open>Auxiliary notions\<close>

text \<open>
  The parity tag and the border test of \<^verbatim>\<open>getNeighborAsHashString\<close>, as functions of
  the hash: \<^verbatim>\<open>(hash.length % 2) ? 'odd' : 'even'\<close> and
  \<^verbatim>\<open>this.BORDER[direction][evenness].indexOf(lastChar) != -1\<close>.
\<close>

definition evennessOf :: "string \<Rightarrow> evenness" where
  "evennessOf hash = (if length hash mod 2 \<noteq> 0 then OddLen else EvenLen)"

definition crossesBorder :: "cardinal \<Rightarrow> string \<Rightarrow> bool" where
  "crossesBorder direction hash =
     (indexOf (BORDER direction (evennessOf hash)) (sliceLast hash) \<noteq> -1)"

text \<open>
  What the last line of the lookup appends for the last character \<open>c\<close>:
  \<^verbatim>\<open>this.BASE32[this.NEIGHBORS[dir][evenness].indexOf(lastChar)]\<close>.
\<close>

definition stepChar :: "cardinal \<Rightarrow> evenness \<Rightarrow> char \<Rightarrow> string" where
  "stepChar d ev c = appendCharAt [] BASE32 (indexOf (NEIGHBORS d ev) [c])"

text \<open>
  A check that can be run on every character of the alphabet: a character that is not on
  the border in direction \<open>d\<close> is replaced by one character, which is not on the border in
  direction \<open>d'\<close> and is replaced by the original one on the way back.
\<close>

definition inverse_ok :: "cardinal \<Rightarrow> cardinal \<Rightarrow> evenness \<Rightarrow> char \<Rightarrow> bool" where
  "inverse_ok d d' ev c =
     (indexOf (BORDER d ev) [c] \<noteq> -1 \<or>
      (case stepChar d ev c of
         [c'] \<Rightarrow> indexOf (BORDER d' ev) [c'] = -1 \<and> stepChar d' ev c' = [c]
       | _ \<Rightarrow> False))"

text \<open>
  The loop invariant of \<^verbatim>\<open>hashString\<close>: the bits still to be decided are clear in
  \<^verbatim>\<open>ch\<close>; decoding the characters produced so far and then the bits decided so far of the
  character in progress gives the encoder's own parity flag and intervals; and the
  intervals contain the coordinate.
\<close>

definition enc_inv :: "GeoCoordinate \<Rightarrow> enc_state \<Rightarrow> bool" where
  "enc_inv c s \<longleftrightarrow>
     h_bit s \<le> 4 \<and> 0 \<le> h_ch s \<and> h_ch s < 32 \<and>
     (\<forall>n. bit (h_ch s) n \<longrightarrow> 5 \<le> n + h_bit s) \<and>
     (let st = foldl (decode_bit (h_ch s)) (decode_loop (h_geohash s)) (take (h_bit s) BITS)
      in d_is_even st = h_is_even s \<and> d_lat st = h_lat s \<and> d_lon st = h_lon s) \<and>
     fst (h_lat s) \<le> lat c \<and> lat c \<le> snd (h_lat s) \<and>
     fst (h_lon s) \<le> long c \<and> long c \<le> snd (h_lon s)"

text \<open>
  The argument of \<^verbatim>\<open>Math.acos\<close> in \<^verbatim>\<open>distanceTo\<close>: the cosine of the central angle
  between the two points.
\<close>

definition centralCosine :: "GeoCoordinate \<Rightarrow> GeoCoordinate \<Rightarrow> real" where
  "centralCosine p q =
     sin (latRadians p) * sin (latRadians q) +
     cos (latRadians p) * cos (latRadians q) * cos ((long p - long q) * pi / 180)"

text \<open>
  Two angles, in radians: half the height of a cell of precision 2 (2.8125 degrees), and the
  central angle that \<^verbatim>\<open>distanceTo\<close> turns into 620 km.
\<close>

definition tq :: real where "tq = pi / 64"

definition dq :: real where "dq = 620 * pi / (180 * (60 * 1.1515 * 1.609344))"

section \<open>Properties of the decoder\<close>

lemma indexOf_from_absent: "x \<notin> set s \<Longrightarrow> indexOf_from s [x] k = -1"
  by (induction s arbitrary: k) auto

lemma indexOf_absent: "x \<notin> set s \<Longrightarrow> indexOf s [x] = -1"
  by (simp add: indexOf_def indexOf_from_absent)

lemma indexOf_empty_needle: "indexOf s [] = 0"
  by (cases s) (simp_all add: indexOf_def)

lemma indexOf_z: "indexOf BASE32 ''z'' = 31"
  by (simp add: indexOf_def BASE32_def)

text \<open>
  Claim C10: constructing a geohash object from the empty string returns normally, and the
  object is the whole globe: the field \<open>northWest\<close> is \<open>(-90, -180)\<close>, the field
  \<open>southEast\<close> is \<open>(90, 180)\<close> and the centroid is \<open>(0, 0)\<close>.
\<close>

theorem empty_hash_is_whole_globe:
  "decode '''' = Inr (GeoHash_of_string '''') \<and>
   northWest (GeoHash_of_string '''') = mkCoord (-90) (-180) \<and>
   southEast (GeoHash_of_string '''') = mkCoord 90 180 \<and>
   centroid (GeoHash_of_string '''') = mkCoord 0 0"
  by (simp add: decode_def GeoHash_of_string_def decodeGeohash_def decode_loop_def
        dec_init_def mkCoord_def)

text \<open>
  An unknown character has code \<open>-1\<close>, and \<open>-1\<close> answers every mask the way 31 does.
\<close>

lemma decode_bit_all_ones: "msk \<in> set BITS \<Longrightarrow> decode_bit (-1) st msk = decode_bit 31 st msk"
  by (auto simp: BITS_def decode_bit_def refine_interval_def)

lemma foldl_decode_bit_all_ones:
  "set ms \<subseteq> set BITS \<Longrightarrow> foldl (decode_bit (-1)) st ms = foldl (decode_bit 31) st ms"
  by (induction ms arbitrary: st) (auto simp: decode_bit_all_ones)

lemma decode_char_invalid:
  "c \<notin> set BASE32 \<Longrightarrow> decode_char st c = decode_char st (CHR ''z'')"
  by (simp add: decode_char_def indexOf_absent indexOf_z foldl_decode_bit_all_ones)

lemma decode_chars_invalid_as_z:
  "foldl decode_char st (map (\<lambda>c. if c \<in> set BASE32 then c else CHR ''z'') hash) =
   foldl decode_char st hash"
  by (induction hash arbitrary: st) (auto simp: decode_char_invalid)

text \<open>
  Claim C9: decoding any string gives the same bounding box and centroid as decoding the
  string in which every character outside the alphabet is replaced by \<open>z\<close>.
\<close>

theorem decode_reads_unknown_character_as_z:
  "decodeGeohash hash =
   decodeGeohash (map (\<lambda>c. if c \<in> set BASE32 then c else CHR ''z'') hash)"
  by (simp add: decodeGeohash_def decode_loop_def decode_chars_invalid_as_z)

text \<open>
  Claim C2 says that after decoding \<open>northWest.latitude \<ge> southEast.latitude\<close>. The
  decoder returns the lower latitude bound in the first coordinate, which the constructor
  stores as \<open>northWest\<close>: for the hash \<open>dqcjqcps\<close> of the test suite the field
  \<open>northWest\<close> has latitude 38.89778..., the field \<open>southEast\<close> has latitude 38.89795...,
  the other way round from what the test suite writes down for these two fields.
\<close>

theorem northWest_field_holds_southern_latitude:
  "lat (northWest (GeoHash_of_string ''dqcjqcps'')) = 2549205 / 65536 \<and>
   lat (southEast (GeoHash_of_string ''dqcjqcps'')) = 10196865 / 262144 \<and>
   lat (northWest (GeoHash_of_string ''dqcjqcps'')) < lat (southEast (GeoHash_of_string ''dqcjqcps''))"
  by (simp add: GeoHash_of_string_def decodeGeohash_def decode_loop_def dec_init_def mkCoord_def
        decode_char_def indexOf_def BASE32_def BITS_def decode_bit_def refine_interval_def)

text \<open>
  The same holds for every hash: each refinement keeps the lower bound below the upper one,
  so the field \<open>northWest\<close> always has the smaller latitude (and the smaller longitude).
\<close>

lemma refine_interval_order:
  "fst iv < snd iv \<Longrightarrow> fst (refine_interval iv cd msk) < snd (refine_interval iv cd msk)"
  by (simp add: refine_interval_def)

lemma decode_bit_order:
  "fst (d_lat st) < snd (d_lat st) \<and> fst (d_lon st) < snd (d_lon st) \<Longrightarrow>
   fst (d_lat (decode_bit cd st msk)) < snd (d_lat (decode_bit cd st msk)) \<and>
   fst (d_lon (decode_bit cd st msk)) < snd (d_lon (decode_bit cd st msk))"
  by (simp add: decode_bit_def refine_interval_order)

lemma decode_bits_order:
  "fst (d_lat st) < snd (d_lat st) \<and> fst (d_lon st) < snd (d_lon st) \<Longrightarrow>
   fst (d_lat (foldl (decode_bit cd) st ms)) < snd (d_lat (foldl (decode_bit cd) st ms)) \<and>
   fst (d_lon (foldl (decode_bit cd) st ms)) < snd (d_lon (foldl (decode_bit cd) st ms))"
  by (induction ms arbitrary: st) (simp_all add: decode_bit_order)

lemma decode_chars_order:
  "fst (d_lat st) < snd (d_lat st) \<and> fst (d_lon st) < snd (d_lon st) \<Longrightarrow>
   fst (d_lat (foldl decode_char st hash)) < snd (d_lat (foldl decode_char st hash)) \<and>
   fst (d_lon (foldl decode_char st hash)) < snd (d_lon (foldl decode_char st hash))"
  by (induction hash arbitrary: st) (simp_all add: decode_char_def decode_bits_order)

lemma decoded_corners_order:
  "lat (northWest (GeoHash_of_string hash)) < lat (southEast (GeoHash_of_string hash)) \<and>
   long (northWest (GeoHash_of_string hash)) < long (southEast (GeoHash_of_string hash))"
  using decode_chars_order[of dec_init hash]
  by (simp add: GeoHash_of_string_def decodeGeohash_def decode_loop_def Let_def mkCoord_def
        dec_init_def)

section \<open>Properties of the encoder\<close>

text \<open>
  Claim C6 says that encoding with a precision \<open>\<le> 0\<close> fails with \<open>InvalidPrecision\<close>.
  The loop of \<^verbatim>\<open>hashString\<close> is not entered and the empty string is returned.
\<close>

theorem encode_precision_zero_returns_empty:
  "encode (mkCoord 0 0) 0 = Inr '''' \<and> encode (mkCoord 0 0) 0 \<noteq> Inl InvalidPrecision"
  by (simp add: encode_def hashString_def enc_init_def)

text \<open>
  Claim C6, as the code has it: for every coordinate and every precision \<open>\<le> 0\<close>, encoding
  returns the empty string and reports no error.
\<close>

theorem encode_nonpositive_precision:
  "precision \<le> 0 \<Longrightarrow> encode c precision = Inr ''''"
  by (simp add: encode_def hashString_def enc_init_def)

theorem encode_nonpositive_precision_witness:
  "(-3::int) \<le> 0 \<and> encode (mkCoord 10 20) (-3) = Inr ''''"
  using encode_nonpositive_precision [of "-3" "mkCoord 10 20"] by simp

section \<open>Properties of the neighbour lookup\<close>

text \<open>
  On the empty string the last character is the empty string, which \<^verbatim>\<open>indexOf\<close> finds at
  position 0 of every border string, so the lookup calls itself on the empty parent again.
\<close>

lemma neighbor_of_empty_cannot_return:
  assumes "getNeighborAsHashString direction hash = Some y"
  shows "\<not> (hash = [] \<and> (\<exists>c. direction = Card c))"
proof (rule getNeighborAsHashString.raw_induct
         [where P = "\<lambda>d h (r::string). \<not> (h = [] \<and> (\<exists>c. d = Card c))", OF _ assms])
  fix f :: "direction \<Rightarrow> string \<Rightarrow> string option" and d h r
  assume IH: "\<And>d' h' r'. f d' h' = Some r' \<Longrightarrow> \<not> (h' = [] \<and> (\<exists>c. d' = Card c))"
  assume step: "(let lastChar = sliceLast h;
          evenness = (if length h mod 2 \<noteq> 0 then OddLen else EvenLen);
          base = dropLast h
      in case d of
           Card dir \<Rightarrow>
             Option.bind
               (if indexOf (BORDER dir evenness) lastChar \<noteq> -1
                then f d base
                else Some base)
               (\<lambda>base. Some (appendCharAt base BASE32 (indexOf (NEIGHBORS dir evenness) lastChar)))
         | NorthWest \<Rightarrow> Option.bind (f (Card North) h) (\<lambda>base. f (Card West) base)
         | NorthEast \<Rightarrow> Option.bind (f (Card North) h) (\<lambda>base. f (Card East) base)
         | SouthEast \<Rightarrow> Option.bind (f (Card South) h) (\<lambda>base. f (Card East) base)
         | SouthWest \<Rightarrow> Option.bind (f (Card South) h) (\<lambda>base. f (Card West) base)) = Some r"
  show "\<not> (h = [] \<and> (\<exists>c. d = Card c))"
  proof
    assume "h = [] \<and> (\<exists>c. d = Card c)"
    then obtain c where h: "h = []" and d: "d = Card c" by blast
    from step have "Option.bind (f (Card c) [])
        (\<lambda>base. Some (appendCharAt base BASE32 (indexOf (NEIGHBORS c EvenLen) []))) = Some r"
      by (simp add: h d sliceLast_def dropLast_def indexOf_empty_needle)
    then obtain b where "f (Card c) [] = Some b"
      by (cases "f (Card c) []") auto
    from IH[OF this] show False by simp
  qed
qed

lemma neighbor_empty_None: "getNeighborAsHashString (Card dir) [] = None"
  using neighbor_of_empty_cannot_return [of "Card dir" "[]"]
  by (cases "getNeighborAsHashString (Card dir) []") auto

text \<open>
  Claim C3 says that the neighbour computation terminates for every string, the empty one
  included. In each cardinal direction the lookup on the empty string never returns.
\<close>

theorem neighbor_of_empty_hash_never_returns:
  "getNeighborAsHashString (Card dir) '''' = None"
  using neighbor_empty_None [of dir] by simp

text \<open>
  The same happens whenever the carry reaches the empty prefix, as it does from a cell on
  the rim of the grid: \<open>z\<close> is in the top row, and its northern neighbour never returns.
\<close>

lemma neighbor_north_of_z_never_returns: "getNeighborAsHashString (Card North) ''z'' = None"
  by (subst getNeighborAsHashString.simps)
     (simp add: sliceLast_def dropLast_def indexOf_def neighbor_empty_None)

lemma neighbor_cardinal_step:
  "getNeighborAsHashString (Card d) (base @ [c]) =
     Option.bind
       (if indexOf (BORDER d (evennessOf (base @ [c]))) [c] \<noteq> -1
        then getNeighborAsHashString (Card d) base else Some base)
       (\<lambda>b. Some (b @ stepChar d (evennessOf (base @ [c])) c))"
  by (subst getNeighborAsHashString.simps)
     (simp add: sliceLast_def dropLast_def Let_def evennessOf_def stepChar_def appendCharAt_def)

lemma evennessOf_snoc: "evennessOf (base @ [c']) = evennessOf (base @ [c])"
  by (simp add: evennessOf_def)

lemma inverse_ok_north: "list_all (inverse_ok North South ev) BASE32"
  by (cases ev) (simp_all add: BASE32_def inverse_ok_def stepChar_def indexOf_def appendCharAt_def)

lemma inverse_ok_east: "list_all (inverse_ok East West ev) BASE32"
  by (cases ev) (simp_all add: BASE32_def inverse_ok_def stepChar_def indexOf_def appendCharAt_def)

lemma there_and_back:
  assumes ok: "inverse_ok d d' (evennessOf (base @ [c])) c"
      and nc: "\<not> crossesBorder d (base @ [c])"
  shows "Option.bind (getNeighborAsHashString (Card d) (base @ [c]))
           (getNeighborAsHashString (Card d')) = Some (base @ [c])"
proof -
  let ?ev = "evennessOf (base @ [c])"
  from nc have b: "indexOf (BORDER d ?ev) [c] = -1"
    by (simp add: crossesBorder_def sliceLast_def)
  with ok obtain c' where c': "stepChar d ?ev c = [c']"
      and b': "indexOf (BORDER d' ?ev) [c'] = -1" and ret: "stepChar d' ?ev c' = [c]"
    by (auto simp: inverse_ok_def split: list.splits)
  have "getNeighborAsHashString (Card d) (base @ [c]) = Some (base @ [c'])"
    by (simp add: neighbor_cardinal_step b c')
  moreover have "getNeighborAsHashString (Card d') (base @ [c']) = Some (base @ [c])"
    by (simp add: neighbor_cardinal_step evennessOf_snoc[of base c' c] b' ret)
  ultimately show ?thesis by simp
qed

text \<open>
  Claim C8: for a non-empty hash over the alphabet whose step to the north triggers no
  carry into the parent cell, the southern neighbour of the northern neighbour is the hash
  itself; and likewise for east followed by west when the step to the east triggers no carry.
\<close>

theorem neighbor_inverse_without_carry:
  assumes "hash \<noteq> []" and "set hash \<subseteq> set BASE32"
  shows "(\<not> crossesBorder North hash \<longrightarrow>
            Option.bind (getNeighborAsHashString (Card North) hash)
              (getNeighborAsHashString (Card South)) = Some hash) \<and>
         (\<not> crossesBorder East hash \<longrightarrow>
            Option.bind (getNeighborAsHashString (Card East) hash)
              (getNeighborAsHashString (Card West)) = Some hash)"
proof -
  from assms(1) obtain base c where h: "hash = base @ [c]"
    by (cases hash rule: rev_cases) auto
  with assms(2) have c: "c \<in> set BASE32" by simp
  have "inverse_ok North South (evennessOf (base @ [c])) c"
    using inverse_ok_north c by (simp add: list_all_iff)
  moreover have "inverse_ok East West (evennessOf (base @ [c])) c"
    using inverse_ok_east c by (simp add: list_all_iff)
  ultimately show ?thesis
    unfolding h using there_and_back by blast
qed

theorem neighbor_inverse_without_carry_witness:
  "''dqcjqcps'' \<noteq> [] \<and> set ''dqcjqcps'' \<subseteq> set BASE32 \<and>
   \<not> crossesBorder North ''dqcjqcps'' \<and> \<not> crossesBorder East ''dqcjqcps'' \<and>
   Option.bind (getNeighborAsHashString (Card North) ''dqcjqcps'')
     (getNeighborAsHashString (Card South)) = Some ''dqcjqcps'' \<and>
   Option.bind (getNeighborAsHashString (Card East) ''dqcjqcps'')
     (getNeighborAsHashString (Card West)) = Some ''dqcjqcps''"
  using neighbor_inverse_without_carry [of "''dqcjqcps''"]
  by (simp add: BASE32_def crossesBorder_def evennessOf_def sliceLast_def indexOf_def)

text \<open>
  Where the carry stops, the lookup returns: it is enough that one character of the hash is
  not in the border string of its position.
\<close>

lemma neighbor_returns_when_carry_stops:
  "\<exists>i<length hash. indexOf (BORDER d (evennessOf (take (Suc i) hash))) [hash ! i] = -1 \<Longrightarrow>
   \<exists>r. getNeighborAsHashString (Card d) hash = Some r"
proof (induction hash rule: rev_induct)
  case Nil
  then show ?case by simp
next
  case (snoc c base)
  show ?case
  proof (cases "indexOf (BORDER d (evennessOf (base @ [c]))) [c] = -1")
    case True
    then show ?thesis by (simp add: neighbor_cardinal_step)
  next
    case False
    from snoc.prems obtain i where i: "i < length (base @ [c])"
      "indexOf (BORDER d (evennessOf (take (Suc i) (base @ [c])))) [(base @ [c]) ! i] = -1"
      by blast
    with False have "i \<noteq> length base" by auto
    with i have "i < length base"
      "indexOf (BORDER d (evennessOf (take (Suc i) base))) [base ! i] = -1"
      by (simp_all add: nth_append)
    with snoc.IH obtain r where "getNeighborAsHashString (Card d) base = Some r" by blast
    then show ?thesis using False by (simp add: neighbor_cardinal_step)
  qed
qed

text \<open>
  A character outside the alphabet is in no border string, so it stops the carry; what is
  appended for it is the text \<open>undefined\<close>, which again has a character outside the alphabet.
\<close>

lemma border_chars_in_alphabet: "c \<notin> set BASE32 \<Longrightarrow> c \<notin> set (BORDER d ev)"
  by (cases d; cases ev; simp add: BASE32_def; blast)

lemma neighbors_chars_in_alphabet: "c \<notin> set BASE32 \<Longrightarrow> c \<notin> set (NEIGHBORS d ev)"
  by (cases d; cases ev; simp add: BASE32_def; blast)


lemma stepChar_invalid: "c \<notin> set BASE32 \<Longrightarrow> stepChar d ev c = ''undefined''"
  by (simp add: stepChar_def appendCharAt_def indexOf_absent neighbors_chars_in_alphabet)

lemma undefined_has_invalid: "CHR ''i'' \<notin> set BASE32"
  by (simp add: BASE32_def)

lemma neighbor_cardinal_invalid:
  "\<exists>c\<in>set hash. c \<notin> set BASE32 \<Longrightarrow>
   \<exists>r. getNeighborAsHashString (Card d) hash = Some r \<and> (\<exists>c\<in>set r. c \<notin> set BASE32)"
proof (induction hash rule: rev_induct)
  case Nil
  then show ?case by simp
next
  case (snoc c base)
  let ?ev = "evennessOf (base @ [c])"
  show ?case
  proof (cases "c \<in> set BASE32")
    case False
    then have "indexOf (BORDER d ?ev) [c] = -1"
      by (simp add: indexOf_absent border_chars_in_alphabet)
    then have "getNeighborAsHashString (Card d) (base @ [c]) = Some (base @ ''undefined'')"
      using False by (simp add: neighbor_cardinal_step stepChar_invalid)
    moreover have "\<exists>x\<in>set (base @ ''undefined''). x \<notin> set BASE32"
      using undefined_has_invalid by simp
    ultimately show ?thesis by blast
  next
    case True
    with snoc.prems have inv: "\<exists>x\<in>set base. x \<notin> set BASE32" by auto
    show ?thesis
    proof (cases "indexOf (BORDER d ?ev) [c] \<noteq> -1")
      case True
      from snoc.IH[OF inv] obtain r where
        r: "getNeighborAsHashString (Card d) base = Some r" and ri: "\<exists>x\<in>set r. x \<notin> set BASE32"
        by blast
      have "getNeighborAsHashString (Card d) (base @ [c]) = Some (r @ stepChar d ?ev c)"
        using True r by (simp add: neighbor_cardinal_step)
      moreover have "\<exists>x\<in>set (r @ stepChar d ?ev c). x \<notin> set BASE32"
        using ri by auto
      ultimately show ?thesis by blast
    next
      case False
      then have "getNeighborAsHashString (Card d) (base @ [c]) = Some (base @ stepChar d ?ev c)"
        by (simp add: neighbor_cardinal_step)
      moreover have "\<exists>x\<in>set (base @ stepChar d ?ev c). x \<notin> set BASE32"
        using inv by auto
      ultimately show ?thesis by blast
    qed
  qed
qed

lemma neighbor_diagonal_steps:
  "getNeighborAsHashString NorthWest hash =
     Option.bind (getNeighborAsHashString (Card North) hash) (getNeighborAsHashString (Card West))"
  "getNeighborAsHashString NorthEast hash =
     Option.bind (getNeighborAsHashString (Card North) hash) (getNeighborAsHashString (Card East))"
  "getNeighborAsHashString SouthEast hash =
     Option.bind (getNeighborAsHashString (Card South) hash) (getNeighborAsHashString (Card East))"
  "getNeighborAsHashString SouthWest hash =
     Option.bind (getNeighborAsHashString (Card South) hash) (getNeighborAsHashString (Card West))"
  by (subst getNeighborAsHashString.simps, simp add: Let_def)+

lemma neighbor_invalid_returns:
  assumes "\<exists>c\<in>set hash. c \<notin> set BASE32"
  shows "\<exists>r. getNeighborAsHashString direction hash = Some r"
proof (cases direction)
  case (Card d)
  then show ?thesis using neighbor_cardinal_invalid[OF assms, of d] by blast
next
  case NorthWest
  from neighbor_cardinal_invalid[OF assms, of North] obtain r where
    "getNeighborAsHashString (Card North) hash = Some r" "\<exists>c\<in>set r. c \<notin> set BASE32" by blast
  with neighbor_cardinal_invalid[of r West] NorthWest show ?thesis
    by (auto simp: neighbor_diagonal_steps)
next
  case NorthEast
  from neighbor_cardinal_invalid[OF assms, of North] obtain r where
    "getNeighborAsHashString (Card North) hash = Some r" "\<exists>c\<in>set r. c \<notin> set BASE32" by blast
  with neighbor_cardinal_invalid[of r East] NorthEast show ?thesis
    by (auto simp: neighbor_diagonal_steps)
next
  case SouthEast
  from neighbor_cardinal_invalid[OF assms, of South] obtain r where
    "getNeighborAsHashString (Card South) hash = Some r" "\<exists>c\<in>set r. c \<notin> set BASE32" by blast
  with neighbor_cardinal_invalid[of r East] SouthEast show ?thesis
    by (auto simp: neighbor_diagonal_steps)
next
  case SouthWest
  from neighbor_cardinal_invalid[OF assms, of South] obtain r where
    "getNeighborAsHashString (Card South) hash = Some r" "\<exists>c\<in>set r. c \<notin> set BASE32" by blast
  with neighbor_cardinal_invalid[of r West] SouthWest show ?thesis
    by (auto simp: neighbor_diagonal_steps)
qed

text \<open>
  Claim C7 says that decoding and neighbour lookup fail with \<open>InvalidHashCharacter\<close> on a
  string with a character outside the alphabet. Neither does: \<open>a\<close> is not in the alphabet,
  decoding it returns a cell, and its northern neighbour is the string \<open>undefined\<close>.
\<close>

theorem invalid_character_is_not_rejected:
  "decode ''a'' \<noteq> Inl InvalidHashCharacter \<and> neighbor ''a'' (Card North) = Some (Inr ''undefined'')"
  by (simp add: decode_def neighbor_def neighbor_cardinal_step[of _ "[]", simplified]
        evennessOf_def indexOf_def stepChar_def appendCharAt_def)

text \<open>
  Claim C7, as the code has it: for every string with a character outside the alphabet,
  decoding returns a cell and the neighbour lookup, in each of the eight directions, returns
  a string; no error is reported.
\<close>

theorem invalid_character_returns_normally:
  "\<exists>c\<in>set hash. c \<notin> set BASE32 \<Longrightarrow>
   (\<exists>g. decode hash = Inr g) \<and> (\<exists>r. neighbor hash direction = Some (Inr r))"
  using neighbor_invalid_returns[of hash direction] by (auto simp: decode_def neighbor_def)

theorem invalid_character_returns_normally_witness:
  "(\<exists>c\<in>set ''da''. c \<notin> set BASE32) \<and>
   (\<exists>g. decode ''da'' = Inr g) \<and> (\<exists>r. neighbor ''da'' NorthEast = Some (Inr r))"
  using invalid_character_returns_normally [of "''da''" NorthEast] by (simp add: BASE32_def)

section \<open>Round trip\<close>

lemma BITS_nth: "j < 5 \<Longrightarrow> BITS ! j = 2 ^ (4 - j)"
proof -
  assume "j < 5"
  then have "j = 0 \<or> j = 1 \<or> j = 2 \<or> j = 3 \<or> j = 4" by linarith
  then show ?thesis by (auto simp: BITS_def)
qed

lemma and_BITS: "j < 5 \<Longrightarrow> (cd AND BITS ! j \<noteq> 0) = bit cd (4 - j)"
  by (simp add: BITS_nth and_exp_eq_0_iff_not_bit)

lemma length_BITS: "length BITS = 5"
  by (simp add: BITS_def)

lemma foldl_decode_bit_cong:
  "(\<And>m. m \<in> set ms \<Longrightarrow> (cd AND m \<noteq> 0) = (cd' AND m \<noteq> 0)) \<Longrightarrow>
   foldl (decode_bit cd) st ms = foldl (decode_bit cd') st ms"
proof (induction ms arbitrary: st)
  case Nil
  then show ?case by simp
next
  case (Cons m ms)
  have "decode_bit cd st m = decode_bit cd' st m"
    using Cons.prems[of m] by (simp add: decode_bit_def refine_interval_def)
  with Cons show ?case by simp
qed

lemma indexOf_from_nth:
  "distinct s \<Longrightarrow> n < length s \<Longrightarrow> indexOf_from s [s ! n] k = k + int n"
proof (induction s arbitrary: n k)
  case Nil
  then show ?case by simp
next
  case (Cons x xs)
  show ?case
  proof (cases n)
    case 0
    then show ?thesis by simp
  next
    case (Suc m)
    with Cons.prems have "m < length xs" "xs ! m \<in> set xs" "x \<notin> set xs" "distinct xs" by auto
    then have "x \<noteq> xs ! m" by auto
    with Cons.IH[OF \<open>distinct xs\<close> \<open>m < length xs\<close>, of "k + 1"] Suc show ?thesis by simp
  qed
qed

lemma indexOf_BASE32_nth: "0 \<le> k \<Longrightarrow> k < 32 \<Longrightarrow> indexOf BASE32 [BASE32 ! nat k] = k"
proof -
  assume k: "0 \<le> k" "k < 32"
  have "distinct BASE32" "length BASE32 = 32" by (simp_all add: BASE32_def)
  with k indexOf_from_nth[of BASE32 "nat k" 0] show ?thesis
    by (simp add: indexOf_def)
qed


lemma bit_or_BITS:
  assumes "k \<le> 4"
  shows "bit (ch OR BITS ! k) n \<longleftrightarrow> bit ch n \<or> n = 4 - k"
  using assms by (simp add: BITS_nth bit_or_iff bit_exp_iff)

lemma or_BITS_bounds:
  assumes "k \<le> 4" "0 \<le> ch" "ch < 32"
  shows "0 \<le> ch OR BITS ! k" "ch OR BITS ! k < 32"
proof -
  from assms(1) have "k = 0 \<or> k = 1 \<or> k = 2 \<or> k = 3 \<or> k = 4" by linarith
  then have m: "0 \<le> BITS ! k" "BITS ! k < 2 ^ 5"
    by (auto simp: BITS_def)
  show "0 \<le> ch OR BITS ! k" using assms(2) m by simp
  have "ch OR BITS ! k < 2 ^ 5"
    by (rule OR_upper) (use assms m in simp_all)
  then show "ch OR BITS ! k < 32" by simp
qed

lemma partial_decode_extend:
  fixes b :: bool and ch :: int and k :: nat
  assumes k: "k \<le> 4" and clear: "\<forall>n. bit ch n \<longrightarrow> 5 \<le> n + k"
  defines "ch' \<equiv> (if b then ch OR BITS ! k else ch)"
  shows "foldl (decode_bit ch') D (take (Suc k) BITS) =
         (let st = foldl (decode_bit ch) D (take k BITS) in
          if d_is_even st
          then st\<lparr>d_lon_err := d_lon_err st / 2,
                  d_lon := (if b then ((fst (d_lon st) + snd (d_lon st)) / 2, snd (d_lon st))
                            else (fst (d_lon st), (fst (d_lon st) + snd (d_lon st)) / 2)),
                  d_is_even := False\<rparr>
          else st\<lparr>d_lat_err := d_lat_err st / 2,
                  d_lat := (if b then ((fst (d_lat st) + snd (d_lat st)) / 2, snd (d_lat st))
                            else (fst (d_lat st), (fst (d_lat st) + snd (d_lat st)) / 2)),
                  d_is_even := True\<rparr>)"
proof -
  have same: "foldl (decode_bit ch') D (take k BITS) = foldl (decode_bit ch) D (take k BITS)"
  proof (rule foldl_decode_bit_cong)
    fix m assume "m \<in> set (take k BITS)"
    then obtain j where j: "j < k" "m = BITS ! j"
      using k by (auto simp: in_set_conv_nth length_BITS)
    then have "j < 5" "4 - j \<noteq> 4 - k" using k by auto
    then show "(ch' AND m \<noteq> 0) = (ch AND m \<noteq> 0)"
      using k j by (simp add: ch'_def and_BITS bit_or_BITS)
  qed
  have notset: "\<not> bit ch (4 - k)" using clear k by auto
  have here: "(ch' AND BITS ! k \<noteq> 0) = b"
    using k notset by (simp add: ch'_def and_BITS bit_or_BITS)
  have "take (Suc k) BITS = take k BITS @ [BITS ! k]"
    using k by (simp add: take_Suc_conv_app_nth length_BITS)
  then show ?thesis
    using same here by (simp add: decode_bit_def refine_interval_def Let_def)
qed


lemma decode_loop_snoc: "decode_loop (gh @ [x]) = decode_char (decode_loop gh) x"
  by (simp add: decode_loop_def)

lemma decode_char_BASE32:
  "0 \<le> k \<Longrightarrow> k < 32 \<Longrightarrow> decode_char D (BASE32 ! nat k) = foldl (decode_bit k) D (take 5 BITS)"
  by (simp add: decode_char_def indexOf_BASE32_nth length_BITS)

lemma enc_inv_body:
  assumes inv: "enc_inv c s"
  shows "enc_inv c (hashString_body c s)"
proof -
  define k where "k = h_bit s"
  define ch where "ch = h_ch s"
  define D where "D = decode_loop (h_geohash s)"
  define st where "st = foldl (decode_bit ch) D (take k BITS)"
  define lo_mid where "lo_mid = (fst (h_lon s) + snd (h_lon s)) / 2"
  define la_mid where "la_mid = (fst (h_lat s) + snd (h_lat s)) / 2"
  define b where "b = (if h_is_even s then long c > lo_mid else lat c > la_mid)"
  define ch' where "ch' = (if b then ch OR BITS ! k else ch)"
  define st' where "st' = foldl (decode_bit ch') D (take (Suc k) BITS)"
  define lat' where "lat' = (if h_is_even s then h_lat s
                            else if b then (la_mid, snd (h_lat s)) else (fst (h_lat s), la_mid))"
  define lon' where "lon' = (if h_is_even s
                            then (if b then (lo_mid, snd (h_lon s)) else (fst (h_lon s), lo_mid))
                            else h_lon s)"
  define s' where "s' = hashString_body c s"
  from inv have k: "k \<le> 4" and ch: "0 \<le> ch" "ch < 32"
    and clear: "\<forall>n. bit ch n \<longrightarrow> 5 \<le> n + k"
    and st: "d_is_even st = h_is_even s" "d_lat st = h_lat s" "d_lon st = h_lon s"
    and box: "fst (h_lat s) \<le> lat c" "lat c \<le> snd (h_lat s)"
             "fst (h_lon s) \<le> long c" "long c \<le> snd (h_lon s)"
    by (simp_all add: enc_inv_def k_def ch_def D_def st_def Let_def)
  have st': "d_is_even st' = (\<not> h_is_even s)" "d_lat st' = lat'" "d_lon st' = lon'"
    unfolding st'_def ch'_def partial_decode_extend[OF k clear, of b D]
    using st by (simp_all add: Let_def st_def[symmetric] lat'_def lon'_def lo_mid_def la_mid_def)
  have ch': "0 \<le> ch'" "ch' < 32"
    using or_BITS_bounds[OF k ch] ch by (simp_all add: ch'_def)
  have clear': "\<forall>n. bit ch' n \<longrightarrow> 5 \<le> n + Suc k"
    using clear k by (auto simp: ch'_def bit_or_BITS)
  have box': "fst lat' \<le> lat c" "lat c \<le> snd lat'" "fst lon' \<le> long c" "long c \<le> snd lon'"
    using box by (auto simp: lat'_def lon'_def b_def)
  have fields:
    "h_is_even s' = (\<not> h_is_even s)" "h_lat s' = lat'" "h_lon s' = lon'"
    "h_bit s' = (if k < 4 then Suc k else 0)"
    "h_ch s' = (if k < 4 then ch' else 0)"
    "h_geohash s' = (if k < 4 then h_geohash s else appendCharAt (h_geohash s) BASE32 ch')"
    by (simp_all add: s'_def hashString_body_def Let_def lat'_def lon'_def b_def ch'_def
          lo_mid_def la_mid_def k_def ch_def)
  show ?thesis
  proof (cases "k < 4")
    case True
    then show ?thesis
      unfolding s'_def[symmetric] enc_inv_def
      using fields st' ch' clear' box'
      by (simp add: Let_def st'_def D_def)
  next
    case False
    with k have k4: "k = 4" by simp
    have gh: "h_geohash s' = h_geohash s @ [BASE32 ! nat ch']"
      using fields(6) False ch' by (simp add: appendCharAt_def BASE32_def)
    have "decode_loop (h_geohash s') = st'"
      using ch' by (simp add: gh decode_loop_snoc decode_char_BASE32 st'_def k4 D_def)
    then show ?thesis
      unfolding s'_def[symmetric] enc_inv_def
      using fields st' box' False
      by (simp add: Let_def)
  qed
qed


lemma body_bit_or_same:
  "h_bit (hashString_body c s) = 0 \<or> h_geohash (hashString_body c s) = h_geohash s"
  by (simp add: hashString_body_def Let_def)

lemma enc_inv_loop:
  "enc_inv c s \<Longrightarrow> h_bit s = 0 \<or> int (length (h_geohash s)) < p \<Longrightarrow>
   enc_inv c (hashString_loop c p s) \<and> h_bit (hashString_loop c p s) = 0"
proof (induction c p s rule: hashString_loop.induct)
  case (1 c p s)
  show ?case
  proof (cases "int (length (h_geohash s)) < p")
    case True
    have "enc_inv c (hashString_body c s)" using "1.prems"(1) by (rule enc_inv_body)
    moreover have "h_bit (hashString_body c s) = 0 \<or>
                   int (length (h_geohash (hashString_body c s))) < p"
      using body_bit_or_same[of c s] True by auto
    ultimately have "enc_inv c (hashString_loop c p (hashString_body c s)) \<and>
                     h_bit (hashString_loop c p (hashString_body c s)) = 0"
      using "1.IH"[OF True] by blast
    then show ?thesis using True by (subst (1 2) hashString_loop.simps) simp
  next
    case False
    then show ?thesis using "1.prems" by (subst (1 2) hashString_loop.simps) simp
  qed
qed

lemma enc_inv_init:
  "-90 \<le> lat c \<Longrightarrow> lat c \<le> 90 \<Longrightarrow> -180 \<le> long c \<Longrightarrow> long c \<le> 180 \<Longrightarrow> enc_inv c enc_init"
  by (simp add: enc_inv_def enc_init_def decode_loop_def dec_init_def)

text \<open>
  Claim C1: for every coordinate with latitude in \<open>[-90, 90]\<close> and longitude in
  \<open>[-180, 180]\<close> and every integer precision \<open>p \<ge> 1\<close>, the cell decoded from the hash
  that encoding produces contains the coordinate: its latitude lies between the two
  latitude bounds of the box and its longitude between the two longitude bounds. (The
  lower bounds are the ones stored in the field \<open>northWest\<close>.)
\<close>

theorem decode_encode_contains_coordinate:
  assumes "-90 \<le> lat c" "lat c \<le> 90" "-180 \<le> long c" "long c \<le> 180" "1 \<le> p"
  shows "lat (northWest (GeoHash_of_string (hashString c p))) \<le> lat c \<and>
         lat c \<le> lat (southEast (GeoHash_of_string (hashString c p))) \<and>
         long (northWest (GeoHash_of_string (hashString c p))) \<le> long c \<and>
         long c \<le> long (southEast (GeoHash_of_string (hashString c p)))"
proof -
  define s where "s = hashString_loop c p enc_init"
  have "enc_inv c enc_init" using assms by (simp add: enc_inv_init)
  then have "enc_inv c s \<and> h_bit s = 0"
    unfolding s_def by (rule enc_inv_loop) (simp add: enc_init_def)
  then have b0: "h_bit s = 0" and "enc_inv c s" by simp_all
  then have "d_lat (decode_loop (h_geohash s)) = h_lat s"
    "d_lon (decode_loop (h_geohash s)) = h_lon s"
    "fst (h_lat s) \<le> lat c" "lat c \<le> snd (h_lat s)"
    "fst (h_lon s) \<le> long c" "long c \<le> snd (h_lon s)"
    by (simp_all add: enc_inv_def Let_def)
  moreover have "hashString c p = h_geohash s"
    by (simp only: hashString_def s_def)
  ultimately show ?thesis
    by (simp add: GeoHash_of_string_def decodeGeohash_def Let_def mkCoord_def)
qed


theorem decode_encode_contains_coordinate_witness:
  "-90 \<le> lat (mkCoord 38.897872 (-77.036510)) \<and> lat (mkCoord 38.897872 (-77.036510)) \<le> 90 \<and>
   -180 \<le> long (mkCoord 38.897872 (-77.036510)) \<and> long (mkCoord 38.897872 (-77.036510)) \<le> 180 \<and>
   (1::int) \<le> 8 \<and>
   lat (northWest (GeoHash_of_string (hashString (mkCoord 38.897872 (-77.036510)) 8)))
     \<le> lat (mkCoord 38.897872 (-77.036510)) \<and>
   lat (mkCoord 38.897872 (-77.036510))
     \<le> lat (southEast (GeoHash_of_string (hashString (mkCoord 38.897872 (-77.036510)) 8))) \<and>
   long (northWest (GeoHash_of_string (hashString (mkCoord 38.897872 (-77.036510)) 8)))
     \<le> long (mkCoord 38.897872 (-77.036510)) \<and>
   long (mkCoord 38.897872 (-77.036510))
     \<le> long (southEast (GeoHash_of_string (hashString (mkCoord 38.897872 (-77.036510)) 8)))"
proof -
  have "-90 \<le> lat (mkCoord 38.897872 (-77.036510))" "lat (mkCoord 38.897872 (-77.036510)) \<le> 90"
    "-180 \<le> long (mkCoord 38.897872 (-77.036510))" "long (mkCoord 38.897872 (-77.036510)) \<le> 180"
    "(1::int) \<le> 8"
    by (simp_all add: mkCoord_def)
  from this decode_encode_contains_coordinate [OF this] show ?thesis by blast
qed

section \<open>Distances\<close>

text \<open>
  Two facts about \<^verbatim>\<open>distanceTo\<close> for latitudes in \<open>[-90, 90]\<close>: the distance is at least the
  difference of the latitudes, at 111.19 km to the degree; and two different points on one
  parallel, away from the poles and less than a full turn apart, are at a positive distance.
\<close>

lemma latRadians_range:
  "\<bar>lat p\<bar> \<le> 90 \<Longrightarrow> - (pi / 2) \<le> latRadians p \<and> latRadians p \<le> pi / 2"
proof -
  assume a: "\<bar>lat p\<bar> \<le> 90"
  then have "lat p \<le> 90" "-90 \<le> lat p" by simp_all
  then have "pi * lat p \<le> pi * 90" "pi * (-90) \<le> pi * lat p"
    by (intro mult_left_mono; simp)+
  then show ?thesis by (simp add: latRadians_def)
qed

lemma cosine_sum_bounds:
  assumes "- (pi / 2) \<le> a" "a \<le> pi / 2" "- (pi / 2) \<le> b" "b \<le> pi / 2"
  shows "- 1 \<le> sin a * sin b + cos a * cos b * cos t"
    and "sin a * sin b + cos a * cos b * cos t \<le> cos (a - b)"
proof -
  have nn: "0 \<le> cos a * cos b"
    using assms by (simp add: cos_ge_zero)
  have "cos a * cos b * cos t \<le> cos a * cos b * 1"
    using nn by (intro mult_left_mono) simp_all
  then show "sin a * sin b + cos a * cos b * cos t \<le> cos (a - b)"
    by (simp add: cos_diff)
  have "cos a * cos b * (- 1) \<le> cos a * cos b * cos t"
    using nn by (intro mult_left_mono) simp_all
  then have "- cos (a + b) \<le> sin a * sin b + cos a * cos b * cos t"
    by (simp add: cos_add)
  moreover have "- 1 \<le> - cos (a + b)" by simp
  ultimately show "- 1 \<le> sin a * sin b + cos a * cos b * cos t" by linarith
qed

lemma distanceTo_ge_lat_diff:
  assumes p: "\<bar>lat p\<bar> \<le> 90" and q: "\<bar>lat q\<bar> \<le> 90"
  shows "\<bar>lat p - lat q\<bar> * (60 * 1.1515 * 1.609344) \<le> distanceTo p q"
proof (cases "lat p = lat q \<and> long p = long q")
  case True
  then show ?thesis by (simp add: distanceTo_def)
next
  case False
  define a where "a = latRadians p"
  define b where "b = latRadians q"
  define t where "t = (long p - long q) * pi / 180"
  define x where "x = sin a * sin b + cos a * cos b * cos t"
  have ra: "- (pi / 2) \<le> a" "a \<le> pi / 2" and rb: "- (pi / 2) \<le> b" "b \<le> pi / 2"
    using latRadians_range[OF p] latRadians_range[OF q] by (simp_all add: a_def b_def)
  have lo: "- 1 \<le> x" and up: "x \<le> cos (a - b)"
    unfolding x_def using cosine_sum_bounds[OF ra rb] by simp_all
  have x1: "x \<le> 1" using up cos_le_one[of "a - b"] by linarith
  have d: "distanceTo p q = arccos x * (180 / pi) * 60 * 1.1515 * 1.609344"
    using x1 by (simp add: distanceTo_def Let_def False a_def b_def t_def x_def)
  have "\<bar>a - b\<bar> \<le> pi" using ra rb by (simp add: abs_le_iff)
  then have "arccos (cos (a - b)) = \<bar>a - b\<bar>" by (rule arccos_cos_eq_abs)
  moreover have "arccos (cos (a - b)) \<le> arccos x"
    using lo up by (intro arccos_le_arccos) simp_all
  ultimately have "\<bar>a - b\<bar> \<le> arccos x" by simp
  moreover have ab: "a - b = (lat p - lat q) * (pi / 180)"
    by (simp add: a_def b_def latRadians_def algebra_simps)
  have "\<bar>a - b\<bar> = \<bar>lat p - lat q\<bar> * (pi / 180)"
    unfolding ab abs_mult by simp
  ultimately have "\<bar>lat p - lat q\<bar> * (pi / 180) \<le> arccos x" by simp
  then have "\<bar>lat p - lat q\<bar> * (pi / 180) * ((180 / pi) * (60 * 1.1515 * 1.609344))
             \<le> arccos x * ((180 / pi) * (60 * 1.1515 * 1.609344))"
    by (intro mult_right_mono) simp_all
  then show ?thesis by (simp add: d)
qed

lemma distanceTo_pos_same_lat:
  assumes "lat p = lat q" "\<bar>lat p\<bar> < 90" "long p \<noteq> long q" "\<bar>long p - long q\<bar> < 360"
  shows "0 < distanceTo p q"
proof -
  define a where "a = latRadians p"
  define t where "t = (long p - long q) * pi / 180"
  define x where "x = sin a * sin a + cos a * cos a * cos t"
  have ab: "latRadians q = a" using assms(1) by (simp add: a_def latRadians_def)
  from assms(2) have "lat p < 90" "-90 < lat p" by simp_all
  then have "pi * lat p < pi * 90" "pi * (-90) < pi * lat p"
    by (intro mult_strict_left_mono; simp)+
  then have ra: "- (pi / 2) < a" "a < pi / 2" by (simp_all add: a_def latRadians_def)
  then have ca: "0 < cos a" by (simp add: cos_gt_zero_pi)
  have t2: "t / 2 \<noteq> 0" "\<bar>t / 2\<bar> < pi"
  proof -
    show "t / 2 \<noteq> 0" using assms(3) by (simp add: t_def)
    have "\<bar>long p - long q\<bar> * pi < 360 * pi"
      using assms(4) by (intro mult_strict_right_mono) simp_all
    then show "\<bar>t / 2\<bar> < pi" by (simp add: t_def abs_mult)
  qed
  have "sin (t / 2) \<noteq> 0"
  proof (cases "0 < t / 2")
    case True
    then show ?thesis using t2 sin_gt_zero[of "t / 2"] by simp
  next
    case False
    then have "0 < - (t / 2)" "- (t / 2) < pi" using t2 by simp_all
    then have "0 < sin (- (t / 2))" by (rule sin_gt_zero)
    then show ?thesis by simp
  qed
  then have "0 < sin (t / 2) ^ 2" by simp
  moreover have "cos t = 1 - 2 * sin (t / 2) ^ 2"
    using cos_double_sin[of "t / 2"] by simp
  ultimately have ct: "cos t < 1" by simp
  have "cos a * cos a * cos t < cos a * cos a * 1"
    using ca ct by (intro mult_strict_left_mono) simp_all
  moreover have "sin a * sin a + cos a * cos a = 1"
    using sin_cos_squared_add[of a] by (simp add: power2_eq_square)
  ultimately have x1: "x < 1" by (simp add: x_def)
  have lo: "- 1 \<le> x"
    unfolding x_def using cosine_sum_bounds(1)[of a a t] ra by simp
  have d: "distanceTo p q = arccos x * (180 / pi) * 60 * 1.1515 * 1.609344"
    using assms(3) x1 by (simp add: distanceTo_def Let_def ab a_def[symmetric] t_def x_def)
  have "arccos 1 < arccos x" using lo x1 by (intro arccos_less_arccos) simp_all
  then have "0 < arccos x" by simp
  then show ?thesis by (simp add: d)
qed

lemma distanceTo_le_0_iff:
  assumes "\<bar>lat p\<bar> \<le> 90" "\<bar>lat q\<bar> < 90" "\<bar>long p - long q\<bar> < 360"
  shows "distanceTo p q \<le> 0 \<longleftrightarrow> lat p = lat q \<and> long p = long q"
proof (cases "lat p = lat q")
  case True
  show ?thesis
  proof (cases "long p = long q")
    case True
    with \<open>lat p = lat q\<close> show ?thesis by (simp add: distanceTo_def)
  next
    case False
    then have "0 < distanceTo p q"
      using True assms by (intro distanceTo_pos_same_lat) simp_all
    with False show ?thesis by simp
  qed
next
  case False
  have "\<bar>lat p - lat q\<bar> * (60 * 1.1515 * 1.609344) \<le> distanceTo p q"
    using assms by (intro distanceTo_ge_lat_diff) simp_all
  moreover have "0 < \<bar>lat p - lat q\<bar> * (60 * 1.1515 * 1.609344)"
    using False by simp
  ultimately have "0 < distanceTo p q" by linarith
  then show ?thesis using False by simp
qed

section \<open>Bounds for sine, cosine and pi\<close>

text \<open>
  Enclosures of \<open>sin\<close> and \<open>cos\<close> by Taylor polynomials, and of \<open>pi\<close> from
  \<open>sin (pi / 6) = 1 / 2\<close>, precise enough to compare the distances between the points of
  neighbouring cells of precision 2 with 620 km.
\<close>

lemma sin_lower_cubic:
  fixes x :: real
  assumes "0 \<le> x"
  shows "x - x ^ 3 / 6 \<le> sin x"
proof -
  have "(\<Sum>m<3. sin_coeff m * x ^ m) = x"
    by (simp add: sin_coeff_def numeral_eq_Suc)
  with Maclaurin_sin_bound[of x 3] have "\<bar>sin x - x\<bar> \<le> inverse (fact 3) * \<bar>x\<bar> ^ 3"
    by simp
  moreover have "inverse (fact 3) * \<bar>x\<bar> ^ 3 = x ^ 3 / 6"
    using assms by (simp add: fact_numeral)
  ultimately show ?thesis by linarith
qed

lemma sin_upper_quintic:
  fixes x :: real
  assumes "0 \<le> x"
  shows "sin x \<le> x - x ^ 3 / 6 + x ^ 5 / 120"
proof -
  have "{..<5::nat} = {0, 1, 2, 3, 4}" by auto
  then have "(\<Sum>m<5. sin_coeff m * x ^ m) = x - x ^ 3 / 6"
    by (simp add: sin_coeff_def fact_numeral)
  with Maclaurin_sin_bound[of x 5]
  have "\<bar>sin x - (x - x ^ 3 / 6)\<bar> \<le> inverse (fact 5) * \<bar>x\<bar> ^ 5"
    by simp
  moreover have "inverse (fact 5) * \<bar>x\<bar> ^ 5 = x ^ 5 / 120"
    using assms by (simp add: fact_numeral)
  ultimately show ?thesis by linarith
qed

lemma pi_lower: "3.14 \<le> pi"
proof (rule ccontr)
  assume "\<not> 3.14 \<le> pi"
  then have lt: "pi / 6 \<le> 3.14 / 6" by simp
  have "sin (pi / 6) \<le> sin (3.14 / 6 :: real)"
  proof (rule sin_monotone_2pi_le)
    show "- (pi / 2) \<le> pi / 6" by simp
    show "pi / 6 \<le> 3.14 / 6" by (rule lt)
    have "(3.14::real) / 6 \<le> 2 / 2" by simp
    also have "\<dots> \<le> pi / 2" using pi_ge_two by simp
    finally show "3.14 / 6 \<le> pi / 2" .
  qed
  moreover have "sin (3.14 / 6 :: real) \<le> (3.14 / 6) - (3.14 / 6) ^ 3 / 6 + (3.14 / 6) ^ 5 / 120"
    by (rule sin_upper_quintic) simp
  moreover have "(3.14 / 6 :: real) - (3.14 / 6) ^ 3 / 6 + (3.14 / 6) ^ 5 / 120 < 1 / 2"
    by (simp add: power_divide)
  ultimately show False by (simp add: sin_30)
qed

lemma pi_upper: "pi \<le> 3.144"
proof (rule ccontr)
  assume "\<not> pi \<le> 3.144"
  then have lt: "3.144 / 6 \<le> pi / 6" by simp
  have "sin (3.144 / 6 :: real) \<le> sin (pi / 6)"
  proof (rule sin_monotone_2pi_le)
    have "- (pi / 2) \<le> 0" by simp
    also have "(0::real) \<le> 3.144 / 6" by simp
    finally show "- (pi / 2) \<le> 3.144 / 6" .
    show "3.144 / 6 \<le> pi / 6" by (rule lt)
    show "pi / 6 \<le> pi / 2" by simp
  qed
  moreover have "(3.144 / 6) - (3.144 / 6) ^ 3 / 6 \<le> sin (3.144 / 6 :: real)"
    by (rule sin_lower_cubic) simp
  moreover have "(1 / 2 :: real) < (3.144 / 6 :: real) - (3.144 / 6) ^ 3 / 6"
    by (simp add: power_divide)
  ultimately show False by (simp add: sin_30)
qed

lemma cos_lower_quadratic:
  fixes x :: real
  shows "1 - x ^ 2 / 2 \<le> cos x"
proof -
  have "\<bar>sin (x / 2)\<bar> \<le> \<bar>x / 2\<bar>" by (rule abs_sin_x_le_abs_x)
  then have "\<bar>sin (x / 2)\<bar> ^ 2 \<le> \<bar>x / 2\<bar> ^ 2"
    by (intro power_mono) simp_all
  then have "sin (x / 2) ^ 2 \<le> x ^ 2 / 4"
    by (simp add: power_divide)
  moreover have "cos x = 1 - 2 * sin (x / 2) ^ 2"
    using cos_double_sin[of "x / 2"] by simp
  ultimately show ?thesis by simp
qed

lemma cos_upper_from_sin:
  fixes x s :: real
  assumes "0 \<le> s" "s \<le> sin (x / 2)"
  shows "cos x \<le> 1 - 2 * s ^ 2"
proof -
  have "s ^ 2 \<le> sin (x / 2) ^ 2"
    using assms by (intro power_mono) simp_all
  moreover have "cos x = 1 - 2 * sin (x / 2) ^ 2"
    using cos_double_sin[of "x / 2"] by simp
  ultimately show ?thesis by simp
qed

lemma sin_between:
  fixes x lo hi :: real
  assumes "0 \<le> lo" "lo \<le> x" "x \<le> hi"
  shows "lo - hi ^ 3 / 6 \<le> sin x" and "sin x \<le> hi"
proof -
  have x0: "0 \<le> x" using assms by simp
  have "x ^ 3 \<le> hi ^ 3" using x0 assms(3) by (intro power_mono) simp_all
  with sin_lower_cubic[OF x0] assms(2) show "lo - hi ^ 3 / 6 \<le> sin x" by simp
  from sin_x_le_x[OF x0] assms(3) show "sin x \<le> hi" by simp
qed

lemma cos_between:
  fixes x lo hi :: real
  assumes "0 \<le> lo" "lo \<le> x" "x \<le> hi" "0 \<le> lo / 2 - (hi / 2) ^ 3 / 6"
  shows "1 - hi ^ 2 / 2 \<le> cos x" and "cos x \<le> 1 - 2 * (lo / 2 - (hi / 2) ^ 3 / 6) ^ 2"
proof -
  have x0: "0 \<le> x" using assms by simp
  have "x ^ 2 \<le> hi ^ 2" using x0 assms(3) by (intro power_mono) simp_all
  with cos_lower_quadratic[of x] show "1 - hi ^ 2 / 2 \<le> cos x" by simp
  have "lo / 2 - (hi / 2) ^ 3 / 6 \<le> sin (x / 2)"
    by (rule sin_between(1)) (use assms in simp_all)
  with assms(4) show "cos x \<le> 1 - 2 * (lo / 2 - (hi / 2) ^ 3 / 6) ^ 2"
    by (rule cos_upper_from_sin)
qed

lemma multiple_of_pi_between:
  fixes c :: real
  assumes "0 \<le> c"
  shows "c * 3.14 \<le> c * pi" and "c * pi \<le> c * 3.144"
  by (rule mult_left_mono[OF pi_lower assms], rule mult_left_mono[OF pi_upper assms])

lemma tq_between: "0.0490625 \<le> tq" "tq \<le> 0.049125"
  using multiple_of_pi_between[of "1 / 64"] by (simp_all add: tq_def)

lemma mult_tq_between:
  fixes k :: real
  assumes "0 \<le> k"
  shows "k * 0.0490625 \<le> k * tq" "k * tq \<le> k * 0.049125"
  by (rule mult_left_mono[OF tq_between(1) assms], rule mult_left_mono[OF tq_between(2) assms])

lemma dq_between: "0.09727 \<le> dq" "dq \<le> 0.0974"
  using multiple_of_pi_between[of "620 / (180 * (60 * 1.1515 * 1.609344))"]
  by (simp_all add: dq_def)

lemma half_sum_between: "0.07316 \<le> (dq + tq) / 2" "(dq + tq) / 2 \<le> 0.07327"
  using multiple_of_pi_between[of "(620 / (180 * (60 * 1.1515 * 1.609344)) + 1 / 64) / 2"]
  by (simp_all add: dq_def tq_def)

lemma half_diff_between: "0.0241 \<le> (dq - tq) / 2" "(dq - tq) / 2 \<le> 0.02414"
  using multiple_of_pi_between[of "(620 / (180 * (60 * 1.1515 * 1.609344)) - 1 / 64) / 2"]
  by (simp_all add: dq_def tq_def)

lemma half_sum_lower: "0.073166 \<le> (dq + tq) / 2"
  using multiple_of_pi_between[of "(620 / (180 * (60 * 1.1515 * 1.609344)) + 1 / 64) / 2"]
  by (simp_all add: dq_def tq_def)

lemma half_diff_lower: "0.024104 \<le> (dq - tq) / 2"
  using multiple_of_pi_between[of "(620 / (180 * (60 * 1.1515 * 1.609344)) - 1 / 64) / 2"]
  by (simp_all add: dq_def tq_def)

lemma sin_tq: "0.04904 \<le> sin tq" "sin tq \<le> 0.049125"
proof -
  have "0.0490625 - 0.049125 ^ 3 / 6 \<le> sin tq"
    by (rule sin_between(1)) (use tq_between in \<open>simp_all add: power_divide\<close>)
  then show "0.04904 \<le> sin tq" by (simp add: power_divide)
  show "sin tq \<le> 0.049125"
    by (rule sin_between(2)[where lo = "0.0490625"]) (use tq_between in \<open>simp_all add: power_divide\<close>)
qed

lemma sin_multiples_tq:
  "0.1466 \<le> sin (3 * tq)" "0.1466 \<le> sin (4 * tq)" "0.1466 \<le> sin (5 * tq)"
proof -
  have "3 * 0.0490625 - (3 * 0.049125) ^ 3 / 6 \<le> sin (3 * tq)"
    by (rule sin_between(1)) (use mult_tq_between[of 3] in \<open>simp_all add: power_divide\<close>)
  then show "0.1466 \<le> sin (3 * tq)" by (simp add: power_divide)
  have "4 * 0.0490625 - (4 * 0.049125) ^ 3 / 6 \<le> sin (4 * tq)"
    by (rule sin_between(1)) (use mult_tq_between[of 4] in \<open>simp_all add: power_divide\<close>)
  then show "0.1466 \<le> sin (4 * tq)" by (simp add: power_divide)
  have "5 * 0.0490625 - (5 * 0.049125) ^ 3 / 6 \<le> sin (5 * tq)"
    by (rule sin_between(1)) (use mult_tq_between[of 5] in \<open>simp_all add: power_divide\<close>)
  then show "0.1466 \<le> sin (5 * tq)" by (simp add: power_divide)
qed

lemma cos_multiples_tq_lower:
  "0.8793 \<le> cos (10 * tq)" "0.8539 \<le> cos (11 * tq)" "0.8262 \<le> cos (12 * tq)"
proof -
  have "1 - (10 * 0.049125) ^ 2 / 2 \<le> cos (10 * tq)"
    by (rule cos_between(1)[where lo = "10 * 0.0490625"]) (use mult_tq_between[of 10] in \<open>simp_all add: power_divide\<close>)
  then show "0.8793 \<le> cos (10 * tq)" by (simp add: power_divide)
  have "1 - (11 * 0.049125) ^ 2 / 2 \<le> cos (11 * tq)"
    by (rule cos_between(1)[where lo = "11 * 0.0490625"]) (use mult_tq_between[of 11] in \<open>simp_all add: power_divide\<close>)
  then show "0.8539 \<le> cos (11 * tq)" by (simp add: power_divide)
  have "1 - (12 * 0.049125) ^ 2 / 2 \<le> cos (12 * tq)"
    by (rule cos_between(1)[where lo = "12 * 0.0490625"]) (use mult_tq_between[of 12] in \<open>simp_all add: power_divide\<close>)
  then show "0.8262 \<le> cos (12 * tq)" by (simp add: power_divide)
qed

lemma cos_multiples_tq_upper:
  "cos (11 * tq) \<le> 0.8579" "cos (12 * tq) \<le> 0.8317"
proof -
  have "cos (11 * tq) \<le> 1 - 2 * (11 * 0.0490625 / 2 - (11 * 0.049125 / 2) ^ 3 / 6) ^ 2"
    by (rule cos_between(2)) (use mult_tq_between[of 11] in \<open>simp_all add: power_divide\<close>)
  then show "cos (11 * tq) \<le> 0.8579" by (simp add: power_divide)
  have "cos (12 * tq) \<le> 1 - 2 * (12 * 0.0490625 / 2 - (12 * 0.049125 / 2) ^ 3 / 6) ^ 2"
    by (rule cos_between(2)) (use mult_tq_between[of 12] in \<open>simp_all add: power_divide\<close>)
  then show "cos (12 * tq) \<le> 0.8317" by (simp add: power_divide)
qed

lemma sin_half_sum: "0.07309 \<le> sin ((dq + tq) / 2)" "sin ((dq + tq) / 2) \<le> 0.07327"
proof -
  have "0.073166 - 0.07327 ^ 3 / 6 \<le> sin ((dq + tq) / 2)"
    by (rule sin_between(1)) (use half_sum_lower half_sum_between in \<open>simp_all add: power_divide\<close>)
  then show "0.07309 \<le> sin ((dq + tq) / 2)" by (simp add: power_divide)
  show "sin ((dq + tq) / 2) \<le> 0.07327"
    by (rule sin_between(2)[where lo = "0.073166"]) (use half_sum_lower half_sum_between in \<open>simp_all add: power_divide\<close>)
qed

lemma sin_half_diff: "0.0241 \<le> sin ((dq - tq) / 2)" "sin ((dq - tq) / 2) \<le> 0.02414"
proof -
  have "0.024104 - 0.02414 ^ 3 / 6 \<le> sin ((dq - tq) / 2)"
    by (rule sin_between(1)) (use half_diff_lower half_diff_between in \<open>simp_all add: power_divide\<close>)
  then show "0.0241 \<le> sin ((dq - tq) / 2)" by (simp add: power_divide)
  show "sin ((dq - tq) / 2) \<le> 0.02414"
    by (rule sin_between(2)[where lo = "0.024104"]) (use half_diff_lower half_diff_between in \<open>simp_all add: power_divide\<close>)
qed

lemma sin_half_dq: "0 \<le> sin (dq / 2)" "sin (dq / 2) \<le> 0.0487"
proof -
  have "0.09727 / 2 - (0.0974 / 2) ^ 3 / 6 \<le> sin (dq / 2)"
    by (rule sin_between(1)) (use dq_between in \<open>simp_all add: power_divide\<close>)
  then show "0 \<le> sin (dq / 2)" by (simp add: power_divide)
  show "sin (dq / 2) \<le> 0.0487"
    by (rule sin_between(2)[where lo = "0.09727 / 2"]) (use dq_between in \<open>simp_all add: power_divide\<close>)
qed

lemma product_le:
  fixes a b c d :: real
  assumes "a \<le> b" "c \<le> d" "0 \<le> a" "0 \<le> c"
  shows "a * c \<le> b * d"
  using assms by (intro mult_mono) simp_all

text \<open>Two points a half cell height apart in latitude and a half cell width in longitude.\<close>

lemma near_corner_towards_equator_is_beyond:
  "cos tq - 2 * cos (10 * tq) * cos (11 * tq) * sin tq ^ 2 < cos dq"
proof -
  have "cos tq - cos dq = 2 * (sin ((dq + tq) / 2) * sin ((dq - tq) / 2))"
    using cos_diff_cos[of tq dq] by (simp add: add.commute)
  moreover have "sin ((dq + tq) / 2) * sin ((dq - tq) / 2) \<le> 0.07327 * 0.02414"
    by (rule product_le) (use sin_half_sum sin_half_diff in \<open>simp_all add: power_divide\<close>)
  ultimately have up: "cos tq - cos dq \<le> 2 * (0.07327 * 0.02414)" by simp
  have "0.8793 * 0.8539 \<le> cos (10 * tq) * cos (11 * tq)"
    by (rule product_le) (use cos_multiples_tq_lower in \<open>simp_all add: power_divide\<close>)
  moreover have "0.04904 * 0.04904 \<le> sin tq * sin tq"
    by (rule product_le) (use sin_tq in \<open>simp_all add: power_divide\<close>)
  ultimately have "(0.8793 * 0.8539) * (0.04904 * 0.04904) \<le>
      (cos (10 * tq) * cos (11 * tq)) * (sin tq * sin tq)"
    by (rule product_le) simp_all
  then have low: "2 * ((0.8793 * 0.8539) * (0.04904 * 0.04904)) \<le>
      2 * cos (10 * tq) * cos (11 * tq) * sin tq ^ 2"
    by (simp add: power2_eq_square mult.assoc)
  have "(2::real) * (0.07327 * 0.02414) < 2 * ((0.8793 * 0.8539) * (0.04904 * 0.04904))"
    by simp
  with up low show ?thesis by linarith
qed

lemma near_corner_towards_pole_is_within:
  "cos dq \<le> cos tq - 2 * cos (12 * tq) * cos (11 * tq) * sin tq ^ 2"
proof -
  have "cos tq - cos dq = 2 * (sin ((dq + tq) / 2) * sin ((dq - tq) / 2))"
    using cos_diff_cos[of tq dq] by (simp add: add.commute)
  moreover have "0.07309 * 0.0241 \<le> sin ((dq + tq) / 2) * sin ((dq - tq) / 2)"
    by (rule product_le) (use sin_half_sum sin_half_diff in \<open>simp_all add: power_divide\<close>)
  ultimately have low: "2 * (0.07309 * 0.0241) \<le> cos tq - cos dq" by simp
  have c12: "0 \<le> cos (12 * tq)" and c11: "0 \<le> cos (11 * tq)"
    using cos_multiples_tq_lower by simp_all
  have cc: "cos (12 * tq) * cos (11 * tq) \<le> 0.8317 * 0.8579"
    by (rule product_le) (use cos_multiples_tq_upper c12 c11 in simp_all)
  have s0: "0 \<le> sin tq" using sin_tq(1) by simp
  have ss: "sin tq * sin tq \<le> 0.049125 * 0.049125"
    by (rule product_le) (use sin_tq s0 in simp_all)
  have cc0: "0 \<le> cos (12 * tq) * cos (11 * tq)" using c12 c11 by simp
  have ss0: "0 \<le> sin tq * sin tq" by simp
  have "(cos (12 * tq) * cos (11 * tq)) * (sin tq * sin tq) \<le>
      (0.8317 * 0.8579) * (0.049125 * 0.049125)"
    by (rule product_le[OF cc ss cc0 ss0])
  then have up: "2 * cos (12 * tq) * cos (11 * tq) * sin tq ^ 2 \<le>
      2 * ((0.8317 * 0.8579) * (0.049125 * 0.049125))"
    by (simp add: power2_eq_square mult.assoc)
  have "(2::real) * ((0.8317 * 0.8579) * (0.049125 * 0.049125)) \<le> 2 * (0.07309 * 0.0241)"
    by simp
  with up low show ?thesis by linarith
qed

lemma far_in_longitude_is_beyond:
  assumes "0.8262 \<le> ca" "0.1466 \<le> sh"
  shows "1 - 2 * ca * cos (11 * tq) * sh ^ 2 < cos dq"
proof -
  have "cos dq = 1 - 2 * sin (dq / 2) ^ 2"
    using cos_double_sin[of "dq / 2"] by simp
  moreover have "sin (dq / 2) * sin (dq / 2) \<le> 0.0487 * 0.0487"
    by (rule product_le) (use sin_half_dq in \<open>simp_all add: power_divide\<close>)
  ultimately have low: "1 - 2 * (0.0487 * 0.0487) \<le> cos dq"
    by (simp add: power2_eq_square)
  have "0.8262 * 0.8539 \<le> ca * cos (11 * tq)"
    by (rule product_le) (use assms cos_multiples_tq_lower in \<open>simp_all add: power_divide\<close>)
  moreover have "0.1466 * 0.1466 \<le> sh * sh"
    by (rule product_le) (use assms in \<open>simp_all add: power_divide\<close>)
  ultimately have "(0.8262 * 0.8539) * (0.1466 * 0.1466) \<le> (ca * cos (11 * tq)) * (sh * sh)"
    by (rule product_le) simp_all
  then have up: "1 - 2 * ca * cos (11 * tq) * sh ^ 2 \<le>
      1 - 2 * ((0.8262 * 0.8539) * (0.1466 * 0.1466))"
    by (simp add: power2_eq_square mult.assoc)
  have "(1::real) - 2 * ((0.8262 * 0.8539) * (0.1466 * 0.1466)) < 1 - 2 * (0.0487 * 0.0487)"
    by simp
  with up low show ?thesis by linarith
qed

lemma distanceTo_le_620_iff:
  assumes p: "\<bar>lat p\<bar> \<le> 90" and q: "\<bar>lat q\<bar> \<le> 90"
      and ne: "\<not> (lat p = lat q \<and> long p = long q)"
  shows "distanceTo p q \<le> 620 \<longleftrightarrow> cos dq \<le> centralCosine p q"
proof -
  define x where "x = centralCosine p q"
  have ra: "- (pi / 2) \<le> latRadians p" "latRadians p \<le> pi / 2"
    and rb: "- (pi / 2) \<le> latRadians q" "latRadians q \<le> pi / 2"
    using latRadians_range[OF p] latRadians_range[OF q] by simp_all
  have lo: "- 1 \<le> x" and "x \<le> cos (latRadians p - latRadians q)"
    unfolding x_def centralCosine_def using cosine_sum_bounds[OF ra rb] by simp_all
  then have x1: "x \<le> 1"
    using cos_le_one[of "latRadians p - latRadians q"] by linarith
  have d: "distanceTo p q = arccos x * (180 / pi) * 60 * 1.1515 * 1.609344"
    using x1 by (simp add: distanceTo_def Let_def ne x_def centralCosine_def)
  have dq0: "0 \<le> dq" "dq \<le> pi"
    using dq_between pi_lower by simp_all
  define K :: real where "K = (180 / pi) * 60 * 1.1515 * 1.609344"
  have K: "0 < K" by (simp add: K_def)
  have dK: "distanceTo p q = arccos x * K" by (simp add: d K_def)
  have qK: "620 = dq * K" by (simp add: dq_def K_def)
  have "distanceTo p q \<le> 620 \<longleftrightarrow> arccos x * K \<le> dq * K"
    by (simp only: dK qK)
  also have "\<dots> \<longleftrightarrow> arccos x \<le> dq"
    using K by (rule mult_le_cancel_right_pos)
  also have "\<dots> \<longleftrightarrow> arccos x \<le> arccos (cos dq)"
    using dq0 by (simp add: arccos_cos)
  also have "\<dots> \<longleftrightarrow> cos dq \<le> x"
    using lo x1 by (intro arccos_le_mono) (simp_all add: abs_le_iff)
  finally show ?thesis by (simp add: x_def)
qed

lemma centralCosine_on_grid:
  assumes "lat p = - (k * 2.8125)" "lat q = - (11 * 2.8125)" "long p - long q = m * 5.625"
  shows "centralCosine p q =
           cos ((k - 11) * tq) - 2 * cos (k * tq) * cos (11 * tq) * sin (m * tq) ^ 2"
proof -
  have a: "latRadians p = - (k * tq)" and b: "latRadians q = - (11 * tq)"
    using assms by (simp_all add: latRadians_def tq_def)
  have "(long p - long q) * pi / 180 = 2 * (m * tq)"
    using assms by (simp add: tq_def)
  then have ct: "cos ((long p - long q) * pi / 180) = 1 - 2 * sin (m * tq) ^ 2"
    by (simp only: cos_double_sin)
  have cd: "cos ((k - 11) * tq) = cos (k * tq) * cos (11 * tq) + sin (k * tq) * sin (11 * tq)"
    using cos_diff[of "k * tq" "11 * tq"] by (simp add: left_diff_distrib)
  show ?thesis
    unfolding centralCosine_def a b ct cd by (simp add: algebra_simps)
qed

lemma beyond_by_latitude:
  assumes "\<bar>lat p\<bar> \<le> 90" "\<bar>lat q\<bar> \<le> 90" "5.625 \<le> \<bar>lat p - lat q\<bar>"
  shows "\<not> distanceTo p q \<le> 620"
proof -
  have "5.625 * (60 * 1.1515 * 1.609344) \<le> \<bar>lat p - lat q\<bar> * (60 * 1.1515 * 1.609344)"
    using assms(3) by (intro mult_right_mono) simp_all
  also have "\<dots> \<le> distanceTo p q"
    using assms(1,2) by (rule distanceTo_ge_lat_diff)
  finally show ?thesis by simp
qed

lemma beyond_towards_equator:
  assumes "lat p = - 28.125" "lat q = - 30.9375"
      and "long p - long q = 5.625 \<or> long p - long q = - 5.625"
  shows "\<not> distanceTo p q \<le> 620"
proof -
  have "\<exists>m::real. long p - long q = m * 5.625 \<and> (m = 1 \<or> m = - 1)"
  proof (cases "long p - long q = 5.625")
    case True
    then show ?thesis by (intro exI[of _ 1]) simp
  next
    case False
    with assms(3) have "long p - long q = - 5.625" by simp
    then show ?thesis by (intro exI[of _ "- 1"]) simp
  qed
  then obtain m :: real where m: "long p - long q = m * 5.625" "m = 1 \<or> m = - 1"
    by blast
  have "centralCosine p q =
          cos ((10 - 11) * tq) - 2 * cos (10 * tq) * cos (11 * tq) * sin (m * tq) ^ 2"
    by (rule centralCosine_on_grid) (use assms m in simp_all)
  also have "\<dots> = cos tq - 2 * cos (10 * tq) * cos (11 * tq) * sin tq ^ 2"
    using m(2) by auto
  finally have "centralCosine p q < cos dq"
    using near_corner_towards_equator_is_beyond by simp
  moreover have "distanceTo p q \<le> 620 \<longleftrightarrow> cos dq \<le> centralCosine p q"
    by (rule distanceTo_le_620_iff) (use assms in simp_all)
  ultimately show ?thesis by simp
qed

lemma within_towards_pole:
  assumes "lat p = - 33.75" "lat q = - 30.9375"
      and "long p - long q = 5.625 \<or> long p - long q = - 5.625"
  shows "distanceTo p q \<le> 620"
proof -
  have "\<exists>m::real. long p - long q = m * 5.625 \<and> (m = 1 \<or> m = - 1)"
  proof (cases "long p - long q = 5.625")
    case True
    then show ?thesis by (intro exI[of _ 1]) simp
  next
    case False
    with assms(3) have "long p - long q = - 5.625" by simp
    then show ?thesis by (intro exI[of _ "- 1"]) simp
  qed
  then obtain m :: real where m: "long p - long q = m * 5.625" "m = 1 \<or> m = - 1"
    by blast
  have "centralCosine p q =
          cos ((12 - 11) * tq) - 2 * cos (12 * tq) * cos (11 * tq) * sin (m * tq) ^ 2"
    by (rule centralCosine_on_grid) (use assms m in simp_all)
  also have "\<dots> = cos tq - 2 * cos (12 * tq) * cos (11 * tq) * sin tq ^ 2"
    using m(2) by auto
  finally have "cos dq \<le> centralCosine p q"
    using near_corner_towards_pole_is_within by simp
  moreover have "distanceTo p q \<le> 620 \<longleftrightarrow> cos dq \<le> centralCosine p q"
    by (rule distanceTo_le_620_iff) (use assms in simp_all)
  ultimately show ?thesis by simp
qed

lemma beyond_by_longitude:
  assumes "lat p = - (k * 2.8125)" "k = 10 \<or> k = 11 \<or> k = 12" "lat q = - 30.9375"
      and "long p - long q = - (m * 5.625)" "m = 3 \<or> m = 4 \<or> m = 5"
  shows "\<not> distanceTo p q \<le> 620"
proof -
  have ca: "0.8262 \<le> cos (k * tq)"
    using assms(2) cos_multiples_tq_lower by auto
  have sh: "0.1466 \<le> sin (m * tq)"
    using assms(5) sin_multiples_tq by auto
  have "centralCosine p q =
          cos ((k - 11) * tq) - 2 * cos (k * tq) * cos (11 * tq) * sin ((- m) * tq) ^ 2"
    by (rule centralCosine_on_grid) (use assms in simp_all)
  also have "\<dots> = cos ((k - 11) * tq) - 2 * cos (k * tq) * cos (11 * tq) * sin (m * tq) ^ 2"
    by simp
  also have "\<dots> \<le> 1 - 2 * cos (k * tq) * cos (11 * tq) * sin (m * tq) ^ 2"
    by simp
  also have "\<dots> < cos dq"
    using ca sh by (rule far_in_longitude_is_beyond)
  finally have "centralCosine p q < cos dq" .
  moreover have "distanceTo p q \<le> 620 \<longleftrightarrow> cos dq \<le> centralCosine p q"
    by (rule distanceTo_le_620_iff) (use assms in auto)
  ultimately show ?thesis by simp
qed

section \<open>Properties of the radius search\<close>

lemma geohash_of_string [simp]: "geohash (GeoHash_of_string h) = h"
  by (simp add: GeoHash_of_string_def split: prod.splits)

lemma columns_loop_appends:
  "columns_loop k cw ce hs = Some r \<Longrightarrow>
   \<exists>ys. r = hs @ ys \<and> length ys = 2 * k \<and> (\<forall>c\<in>set ys. c = GeoHash_of_string (geohash c))"
proof (induction k arbitrary: cw ce hs)
  case 0
  then show ?case by simp
next
  case (Suc k)
  from Suc.prems obtain cw' ce' where
    "getNeighborAsHashString (Card West) cw = Some cw'"
    "getNeighborAsHashString (Card East) ce = Some ce'"
    "columns_loop k cw' ce' (hs @ [GeoHash_of_string cw', GeoHash_of_string ce']) = Some r"
    by (auto split: bind_splits)
  from Suc.IH[OF this(3)] obtain ys where
    "r = (hs @ [GeoHash_of_string cw', GeoHash_of_string ce']) @ ys" "length ys = 2 * k"
    "\<forall>c\<in>set ys. c = GeoHash_of_string (geohash c)"
    by blast
  then show ?case
    by (intro exI[of _ "[GeoHash_of_string cw', GeoHash_of_string ce'] @ ys"]) auto
qed

lemma rows_loop_appends:
  "rows_loop dir k w row hs = Some r \<Longrightarrow>
   \<exists>ys. r = hs @ ys \<and> length ys = k * (2 * w + 1) \<and>
        (\<forall>c\<in>set ys. c = GeoHash_of_string (geohash c)) \<and>
        (0 < k \<longrightarrow> GeoHash_of_string row \<in> set ys)"
proof (induction k arbitrary: row hs)
  case 0
  then show ?case by simp
next
  case (Suc k)
  from Suc.prems obtain hs' row' where
    c: "columns_loop w row row (hs @ [GeoHash_of_string row]) = Some hs'" and
    "getNeighborAsHashString (Card dir) row = Some row'" and
    r: "rows_loop dir k w row' hs' = Some r"
    by (auto split: bind_splits)
  from columns_loop_appends[OF c] obtain ys where
    ys: "hs' = (hs @ [GeoHash_of_string row]) @ ys" "length ys = 2 * w"
    "\<forall>c\<in>set ys. c = GeoHash_of_string (geohash c)"
    by blast
  from Suc.IH[OF r] obtain zs where
    zs: "r = hs' @ zs" "length zs = k * (2 * w + 1)"
    "\<forall>c\<in>set zs. c = GeoHash_of_string (geohash c)"
    by blast
  show ?case
    using ys zs by (intro exI[of _ "[GeoHash_of_string row] @ ys @ zs"]) auto
qed

lemma columns_loop_acc:
  "columns_loop k cw ce hs = map_option ((@) hs) (columns_loop k cw ce [])"
proof (induction k arbitrary: cw ce hs)
  case 0
  then show ?case by simp
next
  case (Suc k)
  show ?case
  proof (cases "getNeighborAsHashString (Card West) cw")
    case None
    then show ?thesis by simp
  next
    case (Some cw')
    show ?thesis
    proof (cases "getNeighborAsHashString (Card East) ce")
      case None
      then show ?thesis using Some by simp
    next
      case (Some ce')
      let ?new = "[GeoHash_of_string cw', GeoHash_of_string ce']"
      have "columns_loop k cw' ce' (hs @ ?new) =
            map_option ((@) (hs @ ?new)) (columns_loop k cw' ce' [])"
        by (rule Suc.IH)
      moreover have "columns_loop k cw' ce' ?new =
            map_option ((@) ?new) (columns_loop k cw' ce' [])"
        by (rule Suc.IH)
      ultimately show ?thesis
        using Some \<open>getNeighborAsHashString (Card West) cw = Some cw'\<close>
        by (cases "columns_loop k cw' ce' []") simp_all
    qed
  qed
qed

lemma rows_loop_acc:
  "rows_loop dir k w row hs = map_option ((@) hs) (rows_loop dir k w row [])"
proof (induction k arbitrary: row hs)
  case 0
  then show ?case by simp
next
  case (Suc k)
  have col: "columns_loop w row row (hs @ [GeoHash_of_string row]) =
             map_option ((@) (hs @ [GeoHash_of_string row])) (columns_loop w row row [])"
           "columns_loop w row row [GeoHash_of_string row] =
             map_option ((@) [GeoHash_of_string row]) (columns_loop w row row [])"
    using columns_loop_acc[of w row row "hs @ [GeoHash_of_string row]"]
          columns_loop_acc[of w row row "[GeoHash_of_string row]"] by simp_all
  show ?case
  proof (cases "columns_loop w row row []")
    case None
    then show ?thesis by (simp add: col)
  next
    case (Some cs)
    show ?thesis
    proof (cases "getNeighborAsHashString (Card dir) row")
      case None
      then show ?thesis using Some by (simp add: col)
    next
      case (Some row')
      have "rows_loop dir k w row' (hs @ GeoHash_of_string row # cs) =
            map_option ((@) (hs @ GeoHash_of_string row # cs)) (rows_loop dir k w row' [])"
        by (rule Suc.IH)
      moreover have "rows_loop dir k w row' (GeoHash_of_string row # cs) =
            map_option ((@) (GeoHash_of_string row # cs)) (rows_loop dir k w row' [])"
        by (rule Suc.IH)
      ultimately show ?thesis
        using Some \<open>columns_loop w row row [] = Some cs\<close>
        by (cases "rows_loop dir k w row' []") (simp_all add: col)
    qed
  qed
qed

lemma countHashes_loop_counts:
  assumes "countHashes_loop this distance direction points hash counter pointsInScope = Some n"
  shows "counter \<le> n"
proof (rule countHashes_loop.raw_induct
         [where P = "\<lambda>this distance direction points hash counter pointsInScope n. counter \<le> n",
          OF _ assms])
  fix f :: "GeoHash \<Rightarrow> real \<Rightarrow> cardinal \<Rightarrow> nat \<Rightarrow> string \<Rightarrow> nat \<Rightarrow> nat \<Rightarrow> nat option"
    and this distance direction points hash counter pointsInScope n
  assume IH: "\<And>this distance direction points hash counter pointsInScope n.
      f this distance direction points hash counter pointsInScope = Some n \<Longrightarrow> counter \<le> n"
  assume step: "(if pointsInScope \<ge> points then
        do {
          hash' \<leftarrow> getNeighborAsHashString (Card direction) hash;
          let currentBlock = GeoHash_of_string hash';
          f this distance direction points hash' (counter + 1)
            (pointsInRange this distance currentBlock)
        }
      else Some counter) = Some n"
  show "counter \<le> n"
  proof (cases "pointsInScope \<ge> points")
    case True
    with step obtain hash' where
      "f this distance direction points hash' (counter + 1)
         (pointsInRange this distance (GeoHash_of_string hash')) = Some n"
      by (auto split: bind_splits simp: Let_def)
    from IH[OF this] show ?thesis by simp
  next
    case False
    with step show ?thesis by simp
  qed
qed

lemma countHashes_positive:
  assumes "countHashesUntilDistance this distance direction points = Some n" "points \<le> 5"
  shows "0 < n"
proof -
  from assms obtain hash' where
    "countHashes_loop this distance direction points hash' 1
       (pointsInRange this distance (GeoHash_of_string hash')) = Some n"
    unfolding countHashesUntilDistance_def
    by (subst (asm) countHashes_loop.simps) (auto split: bind_splits simp: Let_def)
  from countHashes_loop_counts[OF this] show ?thesis by simp
qed

lemma candidateHashes_structure:
  assumes "candidateHashes this distance points = Some hashes"
  shows "\<exists>n s w north row south.
           countHashesUntilDistance this distance North points = Some n \<and>
           countHashesUntilDistance this distance South points = Some s \<and>
           countHashesUntilDistance this distance West points = Some w \<and>
           rows_loop North n w (geohash this) [] = Some north \<and>
           getNeighborAsHashString (Card South) (geohash this) = Some row \<and>
           rows_loop South n w row [] = Some south \<and>
           hashes = north @ south"
proof -
  from assms obtain n s w north row where
    c: "countHashesUntilDistance this distance North points = Some n"
       "countHashesUntilDistance this distance South points = Some s"
       "countHashesUntilDistance this distance West points = Some w" and
    n: "rows_loop North n w (geohash this) [] = Some north" and
    r: "getNeighborAsHashString (Card South) (geohash this) = Some row" and
    s: "rows_loop South n w row north = Some hashes"
    unfolding candidateHashes_def by (auto split: bind_splits)
  from s obtain south where "rows_loop South n w row [] = Some south" "hashes = north @ south"
    by (subst (asm) rows_loop_acc) auto
  with c n r show ?thesis by blast
qed


lemma distanceTo_self: "distanceTo p p = 0"
  by (simp add: distanceTo_def)

lemma centroid_in_range:
  "0 \<le> distance \<Longrightarrow> 1 \<le> pointsInRange this distance this"
  by (simp add: pointsInRange_def getAllCoordinates_def distanceTo_self)

text \<open>
  Claim C5, as the code has it: whenever the search around the cell of a hash returns, with
  a distance \<open>\<ge> 0\<close> and at most 5 required points, the returned list contains the
  centre's own hash exactly when the centre passes the filter that every candidate passes:
  at least the required number of its own five points lie within the distance of its
  centroid. The centroid itself always does, so with one required point the centre is
  always returned.
\<close>

theorem radius_search_returns_center_iff_it_passes_filter:
  assumes ret: "getAllHashStringsWithinRadius (GeoHash_of_string h) distance points = Some r"
      and d: "0 \<le> distance" and p: "points \<le> 5"
  shows "(h \<in> set r \<longleftrightarrow>
            points \<le> pointsInRange (GeoHash_of_string h) distance (GeoHash_of_string h)) \<and>
         (points = 1 \<longrightarrow> h \<in> set r)"
proof -
  let ?ctr = "GeoHash_of_string h"
  let ?ok = "\<lambda>block. points \<le> pointsInRange ?ctr distance block"
  from ret obtain cs where cs: "candidateHashes ?ctr distance points = Some cs"
    and r: "r = map geohash (filter ?ok cs)"
    unfolding getAllHashStringsWithinRadius_def by (auto split: bind_splits simp: Let_def)
  from candidateHashes_structure[OF cs] obtain n w north row south where
    n: "countHashesUntilDistance ?ctr distance North points = Some n" and
    north: "rows_loop North n w h [] = Some north" and
    south: "rows_loop South n w row [] = Some south" and
    app: "cs = north @ south"
    by auto
  have "0 < n" using n p by (rule countHashes_positive)
  with rows_loop_appends[OF north] rows_loop_appends[OF south]
  have mem: "?ctr \<in> set cs" and shape: "\<forall>c\<in>set cs. c = GeoHash_of_string (geohash c)"
    unfolding app by auto
  have iff: "h \<in> set r \<longleftrightarrow> ?ok ?ctr"
  proof
    assume "h \<in> set r"
    then obtain c where "c \<in> set cs" "?ok c" "geohash c = h" unfolding r by auto
    with shape show "?ok ?ctr" by metis
  next
    assume "?ok ?ctr"
    with mem have "?ctr \<in> set (filter ?ok cs)" by simp
    then have "geohash ?ctr \<in> set r" unfolding r by (metis image_eqI set_map)
    then show "h \<in> set r" by simp
  qed
  moreover have "points = 1 \<longrightarrow> ?ok ?ctr"
    using centroid_in_range[OF d, of ?ctr] by simp
  ultimately show ?thesis by blast
qed

text \<open>
  The shape of the candidate list: the rows pushed south of the centre are as many as the
  rows pushed from the centre northwards. Both loops run \<^verbatim>\<open>searchNorth\<close> times, and the
  south extent does not enter the candidate list.
\<close>

theorem candidate_rows_south_follow_north_extent:
  assumes "candidateHashes this distance points = Some hashes"
      and "countHashesUntilDistance this distance North points = Some n"
      and "countHashesUntilDistance this distance West points = Some w"
  shows "\<exists>north row south.
           rows_loop North n w (geohash this) [] = Some north \<and>
           getNeighborAsHashString (Card South) (geohash this) = Some row \<and>
           rows_loop South n w row [] = Some south \<and>
           hashes = north @ south \<and>
           length north = n * (2 * w + 1) \<and> length south = n * (2 * w + 1)"
proof -
  from candidateHashes_structure[OF assms(1)] assms(2,3) obtain north row south where
    *: "rows_loop North n w (geohash this) [] = Some north"
       "getNeighborAsHashString (Card South) (geohash this) = Some row"
       "rows_loop South n w row [] = Some south"
       "hashes = north @ south"
    by auto
  with rows_loop_appends[OF *(1)] rows_loop_appends[OF *(3)] show ?thesis by auto
qed


lemmas decode_eval = GeoHash_of_string_def decodeGeohash_def decode_loop_def dec_init_def
  mkCoord_def decode_char_def indexOf_def BASE32_def BITS_def decode_bit_def refine_interval_def

lemmas neighbor_eval = neighbor_cardinal_step[where base = "[]", simplified]
  evennessOf_def indexOf_def stepChar_def appendCharAt_def BASE32_def

lemma neighbors_of_s:
  "getNeighborAsHashString (Card North) ''s'' = Some ''u''"
  "getNeighborAsHashString (Card South) ''s'' = Some ''k''"
  "getNeighborAsHashString (Card West) ''s'' = Some ''e''"
  "getNeighborAsHashString (Card East) ''s'' = Some ''t''"
  "getNeighborAsHashString (Card West) ''k'' = Some ''7''"
  "getNeighborAsHashString (Card East) ''k'' = Some ''m''"
  "getNeighborAsHashString (Card South) ''k'' = Some ''h''"
  by (simp_all add: neighbor_eval)

lemma blocks_around_s:
  "GeoHash_of_string ''s'' = \<lparr>coordinate = \<lparr>lat = 45/2, long = 45/2\<rparr>,
      northWest = \<lparr>lat = 0, long = 0\<rparr>, southEast = \<lparr>lat = 45, long = 45\<rparr>,
      northEast = \<lparr>lat = 0, long = 45\<rparr>, southWest = \<lparr>lat = 45, long = 0\<rparr>,
      centroid = \<lparr>lat = 45/2, long = 45/2\<rparr>, geohash = ''s''\<rparr>"
  by (simp add: decode_eval)

lemma points_in_range_around_s:
  "pointsInRange (GeoHash_of_string ''s'') 0 (GeoHash_of_string ''s'') = 1"
  "pointsInRange (GeoHash_of_string ''s'') 0 (GeoHash_of_string ''u'') = 0"
  "pointsInRange (GeoHash_of_string ''s'') 0 (GeoHash_of_string ''k'') = 0"
  "pointsInRange (GeoHash_of_string ''s'') 0 (GeoHash_of_string ''e'') = 0"
  "pointsInRange (GeoHash_of_string ''s'') 0 (GeoHash_of_string ''t'') = 0"
  "pointsInRange (GeoHash_of_string ''s'') 0 (GeoHash_of_string ''7'') = 0"
  "pointsInRange (GeoHash_of_string ''s'') 0 (GeoHash_of_string ''m'') = 0"
  by (simp_all add: pointsInRange_def getAllCoordinates_def decode_eval distanceTo_le_0_iff)


lemma count_stops_after_one_step:
  assumes "getNeighborAsHashString (Card direction) (geohash this) = Some hash'"
      and "points \<le> 5"
      and "pointsInRange this distance (GeoHash_of_string hash') < points"
  shows "countHashesUntilDistance this distance direction points = Some 1"
proof -
  have stop: "\<not> points \<le> pointsInRange this distance (GeoHash_of_string hash')"
    using assms(3) by simp
  have "countHashes_loop this distance direction points hash' 1
          (pointsInRange this distance (GeoHash_of_string hash')) = Some 1"
    by (subst countHashes_loop.simps) (simp add: stop)
  then show ?thesis
    unfolding countHashesUntilDistance_def
    by (subst countHashes_loop.simps) (simp add: assms(1,2))
qed

lemma extents_around_s:
  assumes "1 \<le> points" "points \<le> 5"
  shows "countHashesUntilDistance (GeoHash_of_string ''s'') 0 North points = Some 1"
    and "countHashesUntilDistance (GeoHash_of_string ''s'') 0 South points = Some 1"
    and "countHashesUntilDistance (GeoHash_of_string ''s'') 0 West points = Some 1"
proof -
  show "countHashesUntilDistance (GeoHash_of_string ''s'') 0 North points = Some 1"
    by (rule count_stops_after_one_step[where hash' = "''u''"])
       (use assms in \<open>simp_all add: neighbors_of_s points_in_range_around_s\<close>)
  show "countHashesUntilDistance (GeoHash_of_string ''s'') 0 South points = Some 1"
    by (rule count_stops_after_one_step[where hash' = "''k''"])
       (use assms in \<open>simp_all add: neighbors_of_s points_in_range_around_s\<close>)
  show "countHashesUntilDistance (GeoHash_of_string ''s'') 0 West points = Some 1"
    by (rule count_stops_after_one_step[where hash' = "''e''"])
       (use assms in \<open>simp_all add: neighbors_of_s points_in_range_around_s\<close>)
qed

lemma candidates_around_s:
  assumes "1 \<le> points" "points \<le> 5"
  shows "candidateHashes (GeoHash_of_string ''s'') 0 points =
           Some (map GeoHash_of_string [''s'', ''e'', ''t'', ''k'', ''7'', ''m''])"
  by (simp add: candidateHashes_def extents_around_s[OF assms] neighbors_of_s)

lemma search_around_s_one:
  "getAllHashStringsWithinRadius (GeoHash_of_string ''s'') 0 1 = Some [''s'']"
  by (simp add: getAllHashStringsWithinRadius_def candidates_around_s points_in_range_around_s)

text \<open>
  Claim C5 says that the returned set always includes the centre. With distance 0 and two
  required points, the search around \<open>s\<close> returns the empty list: only the centroid of the
  centre cell is within distance 0 of itself, one point out of the two required.
\<close>

theorem radius_search_can_drop_center:
  "getAllHashStringsWithinRadius (GeoHash_of_string ''s'') 0 2 = Some [] \<and>
   ''s'' \<notin> set (the (getAllHashStringsWithinRadius (GeoHash_of_string ''s'') 0 2))"
  by (simp add: getAllHashStringsWithinRadius_def candidates_around_s points_in_range_around_s)

theorem radius_search_returns_center_iff_it_passes_filter_witness:
  "getAllHashStringsWithinRadius (GeoHash_of_string ''s'') 0 1 = Some [''s''] \<and>
   (0::real) \<le> 0 \<and> (1::nat) \<le> 5 \<and>
   (''s'' \<in> set [''s''] \<longleftrightarrow>
      1 \<le> pointsInRange (GeoHash_of_string ''s'') 0 (GeoHash_of_string ''s'')) \<and>
   ''s'' \<in> set [''s'']"
  using radius_search_returns_center_iff_it_passes_filter [of "''s''" 0 1 "[''s'']"] search_around_s_one by simp

theorem candidate_rows_south_follow_north_extent_witness:
  "candidateHashes (GeoHash_of_string ''s'') 0 1 =
     Some (map GeoHash_of_string [''s'', ''e'', ''t'', ''k'', ''7'', ''m'']) \<and>
   countHashesUntilDistance (GeoHash_of_string ''s'') 0 North 1 = Some 1 \<and>
   countHashesUntilDistance (GeoHash_of_string ''s'') 0 West 1 = Some 1 \<and>
   (\<exists>north row south.
      rows_loop North 1 1 (geohash (GeoHash_of_string ''s'')) [] = Some north \<and>
      getNeighborAsHashString (Card South) (geohash (GeoHash_of_string ''s'')) = Some row \<and>
      rows_loop South 1 1 row [] = Some south \<and>
      map GeoHash_of_string [''s'', ''e'', ''t'', ''k'', ''7'', ''m''] = north @ south \<and>
      length north = 1 * (2 * 1 + 1) \<and> length south = 1 * (2 * 1 + 1))"
proof -
  have a: "candidateHashes (GeoHash_of_string ''s'') 0 1 =
     Some (map GeoHash_of_string [''s'', ''e'', ''t'', ''k'', ''7'', ''m''])"
    by (simp add: candidates_around_s)
  have b: "countHashesUntilDistance (GeoHash_of_string ''s'') 0 North 1 = Some 1"
    and c: "countHashesUntilDistance (GeoHash_of_string ''s'') 0 West 1 = Some 1"
    by (simp_all add: extents_around_s)
  from a b c candidate_rows_south_follow_north_extent [OF a b c] show ?thesis by blast
qed

subsection \<open>The search around the cell 3f\<close>

lemma neighbor_one_char:
  "getNeighborAsHashString (Card d) [a] =
     (if indexOf (BORDER d OddLen) [a] \<noteq> -1 then None else Some (stepChar d OddLen a))"
  using neighbor_cardinal_step[of d "[]" a] by (simp add: evennessOf_def neighbor_empty_None)

lemma neighbor_two_chars:
  "getNeighborAsHashString (Card d) [a, b] =
     Option.bind
       (if indexOf (BORDER d EvenLen) [b] \<noteq> -1
        then getNeighborAsHashString (Card d) [a] else Some [a])
       (\<lambda>r. Some (r @ stepChar d EvenLen b))"
  using neighbor_cardinal_step[of d "[a]" b] by (simp add: evennessOf_def)

lemmas neighbor_eval2 = neighbor_two_chars neighbor_one_char indexOf_def stepChar_def
  appendCharAt_def BASE32_def

lemma neighbors_around_3f:
  "getNeighborAsHashString (Card North) ''3f'' = Some ''3g''"
  "getNeighborAsHashString (Card South) ''3f'' = Some ''3c''"
  "getNeighborAsHashString (Card South) ''3c'' = Some ''3b''"
  "getNeighborAsHashString (Card West) ''3f'' = Some ''3d''"
  "getNeighborAsHashString (Card West) ''3d'' = Some ''36''"
  "getNeighborAsHashString (Card East) ''3f'' = Some ''64''"
  "getNeighborAsHashString (Card East) ''64'' = Some ''66''"
  "getNeighborAsHashString (Card West) ''3c'' = Some ''39''"
  "getNeighborAsHashString (Card West) ''39'' = Some ''33''"
  "getNeighborAsHashString (Card East) ''3c'' = Some ''61''"
  "getNeighborAsHashString (Card East) ''61'' = Some ''63''"
  by (simp_all add: neighbor_eval2)

lemma centroid_3f:
  "centroid (GeoHash_of_string ''3f'') = \<lparr>lat = - 30.9375, long = - 95.625\<rparr>"
  by (simp add: decode_eval)

lemma corners_3g:
  "getAllCoordinates (GeoHash_of_string ''3g'') =
     [\<lparr>lat = - 28.125, long = - 101.25\<rparr>, \<lparr>lat = - 28.125, long = - 90\<rparr>,
      \<lparr>lat = - 22.5, long = - 90\<rparr>, \<lparr>lat = - 22.5, long = - 101.25\<rparr>,
      \<lparr>lat = - 25.3125, long = - 95.625\<rparr>]"
  by (simp add: getAllCoordinates_def decode_eval)

lemma corners_3c:
  "getAllCoordinates (GeoHash_of_string ''3c'') =
     [\<lparr>lat = - 39.375, long = - 101.25\<rparr>, \<lparr>lat = - 39.375, long = - 90\<rparr>,
      \<lparr>lat = - 33.75, long = - 90\<rparr>, \<lparr>lat = - 33.75, long = - 101.25\<rparr>,
      \<lparr>lat = - 36.5625, long = - 95.625\<rparr>]"
  by (simp add: getAllCoordinates_def decode_eval)

lemma corners_3b:
  "getAllCoordinates (GeoHash_of_string ''3b'') =
     [\<lparr>lat = - 45, long = - 101.25\<rparr>, \<lparr>lat = - 45, long = - 90\<rparr>,
      \<lparr>lat = - 39.375, long = - 90\<rparr>, \<lparr>lat = - 39.375, long = - 101.25\<rparr>,
      \<lparr>lat = - 42.1875, long = - 95.625\<rparr>]"
  by (simp add: getAllCoordinates_def decode_eval)

lemma corners_3d:
  "getAllCoordinates (GeoHash_of_string ''3d'') =
     [\<lparr>lat = - 33.75, long = - 112.5\<rparr>, \<lparr>lat = - 33.75, long = - 101.25\<rparr>,
      \<lparr>lat = - 28.125, long = - 101.25\<rparr>, \<lparr>lat = - 28.125, long = - 112.5\<rparr>,
      \<lparr>lat = - 30.9375, long = - 106.875\<rparr>]"
  by (simp add: getAllCoordinates_def decode_eval)

lemma corners_36:
  "getAllCoordinates (GeoHash_of_string ''36'') =
     [\<lparr>lat = - 33.75, long = - 123.75\<rparr>, \<lparr>lat = - 33.75, long = - 112.5\<rparr>,
      \<lparr>lat = - 28.125, long = - 112.5\<rparr>, \<lparr>lat = - 28.125, long = - 123.75\<rparr>,
      \<lparr>lat = - 30.9375, long = - 118.125\<rparr>]"
  by (simp add: getAllCoordinates_def decode_eval)


lemma pointsInRange_none:
  assumes "\<And>p. p \<in> set (getAllCoordinates block) \<Longrightarrow> \<not> distanceTo p (centroid this) \<le> distance"
  shows "pointsInRange this distance block = 0"
  using assms by (simp add: pointsInRange_def)

lemma pointsInRange_some:
  assumes "p \<in> set (getAllCoordinates block)" "distanceTo p (centroid this) \<le> distance"
  shows "1 \<le> pointsInRange this distance block"
proof -
  have "distanceTo p (centroid this) \<in>
          set (filter (\<lambda>d. d \<le> distance)
                 (map (\<lambda>p. distanceTo p (centroid this)) (getAllCoordinates block)))"
    using assms by auto
  then have "0 < pointsInRange this distance block"
    unfolding pointsInRange_def by (metis length_pos_if_in_set)
  then show ?thesis by simp
qed

lemma points_in_range_3g: "pointsInRange (GeoHash_of_string ''3f'') 620 (GeoHash_of_string ''3g'') = 0"
proof (rule pointsInRange_none)
  fix p assume "p \<in> set (getAllCoordinates (GeoHash_of_string ''3g''))"
  then consider "lat p = - 28.125 \<and> (long p = - 101.25 \<or> long p = - 90)"
    | "lat p = - 22.5" | "lat p = - 25.3125"
    unfolding corners_3g by auto
  then show "\<not> distanceTo p (centroid (GeoHash_of_string ''3f'')) \<le> 620"
  proof cases
    case 1
    then show ?thesis
      unfolding centroid_3f by (intro beyond_towards_equator) auto
  next
    case 2
    then show ?thesis
      unfolding centroid_3f by (intro beyond_by_latitude) simp_all
  next
    case 3
    then show ?thesis
      unfolding centroid_3f by (intro beyond_by_latitude) simp_all
  qed
qed

lemma points_in_range_3b: "pointsInRange (GeoHash_of_string ''3f'') 620 (GeoHash_of_string ''3b'') = 0"
proof (rule pointsInRange_none)
  fix p assume "p \<in> set (getAllCoordinates (GeoHash_of_string ''3b''))"
  then consider "lat p = - 45" | "lat p = - 39.375" | "lat p = - 42.1875"
    unfolding corners_3b by auto
  then show "\<not> distanceTo p (centroid (GeoHash_of_string ''3f'')) \<le> 620"
    unfolding centroid_3f by cases (intro beyond_by_latitude; simp)+
qed

lemma points_in_range_36: "pointsInRange (GeoHash_of_string ''3f'') 620 (GeoHash_of_string ''36'') = 0"
proof (rule pointsInRange_none)
  fix p assume "p \<in> set (getAllCoordinates (GeoHash_of_string ''36''))"
  then consider
      "lat p = - (12 * 2.8125) \<and> long p - (- 95.625) = - (5 * 5.625)"
    | "lat p = - (12 * 2.8125) \<and> long p - (- 95.625) = - (3 * 5.625)"
    | "lat p = - (10 * 2.8125) \<and> long p - (- 95.625) = - (3 * 5.625)"
    | "lat p = - (10 * 2.8125) \<and> long p - (- 95.625) = - (5 * 5.625)"
    | "lat p = - (11 * 2.8125) \<and> long p - (- 95.625) = - (4 * 5.625)"
    unfolding corners_36 by auto
  then show "\<not> distanceTo p (centroid (GeoHash_of_string ''3f'')) \<le> 620"
  proof cases
    case 1
    then show ?thesis
      unfolding centroid_3f by (intro beyond_by_longitude[where k = 12 and m = 5]) simp_all
  next
    case 2
    then show ?thesis
      unfolding centroid_3f by (intro beyond_by_longitude[where k = 12 and m = 3]) simp_all
  next
    case 3
    then show ?thesis
      unfolding centroid_3f by (intro beyond_by_longitude[where k = 10 and m = 3]) simp_all
  next
    case 4
    then show ?thesis
      unfolding centroid_3f by (intro beyond_by_longitude[where k = 10 and m = 5]) simp_all
  next
    case 5
    then show ?thesis
      unfolding centroid_3f by (intro beyond_by_longitude[where k = 11 and m = 4]) simp_all
  qed
qed

lemma points_in_range_3c: "1 \<le> pointsInRange (GeoHash_of_string ''3f'') 620 (GeoHash_of_string ''3c'')"
proof (rule pointsInRange_some)
  show "\<lparr>lat = - 33.75, long = - 101.25\<rparr> \<in> set (getAllCoordinates (GeoHash_of_string ''3c''))"
    unfolding corners_3c by simp
  show "distanceTo \<lparr>lat = - 33.75, long = - 101.25\<rparr> (centroid (GeoHash_of_string ''3f'')) \<le> 620"
    unfolding centroid_3f by (intro within_towards_pole) simp_all
qed

lemma points_in_range_3d: "1 \<le> pointsInRange (GeoHash_of_string ''3f'') 620 (GeoHash_of_string ''3d'')"
proof (rule pointsInRange_some)
  show "\<lparr>lat = - 33.75, long = - 101.25\<rparr> \<in> set (getAllCoordinates (GeoHash_of_string ''3d''))"
    unfolding corners_3d by simp
  show "distanceTo \<lparr>lat = - 33.75, long = - 101.25\<rparr> (centroid (GeoHash_of_string ''3f'')) \<le> 620"
    unfolding centroid_3f by (intro within_towards_pole) simp_all
qed


lemma count_stops_after_two_steps:
  assumes "getNeighborAsHashString (Card direction) (geohash this) = Some h1"
      and "points \<le> 5"
      and "points \<le> pointsInRange this distance (GeoHash_of_string h1)"
      and "getNeighborAsHashString (Card direction) h1 = Some h2"
      and "pointsInRange this distance (GeoHash_of_string h2) < points"
  shows "countHashesUntilDistance this distance direction points = Some 2"
proof -
  have stop: "\<not> points \<le> pointsInRange this distance (GeoHash_of_string h2)"
    using assms(5) by simp
  have "countHashes_loop this distance direction points h2 (Suc (Suc 0))
          (pointsInRange this distance (GeoHash_of_string h2)) = Some 2"
    by (subst countHashes_loop.simps) (simp add: stop)
  then have "countHashes_loop this distance direction points h1 (Suc 0)
          (pointsInRange this distance (GeoHash_of_string h1)) = Some 2"
    by (subst countHashes_loop.simps) (simp add: assms(3,4))
  then show ?thesis
    unfolding countHashesUntilDistance_def
    by (subst countHashes_loop.simps) (simp add: assms(1,2))
qed

lemma extents_around_3f:
  "countHashesUntilDistance (GeoHash_of_string ''3f'') 620 North 1 = Some 1"
  "countHashesUntilDistance (GeoHash_of_string ''3f'') 620 South 1 = Some 2"
  "countHashesUntilDistance (GeoHash_of_string ''3f'') 620 West 1 = Some 2"
proof -
  show "countHashesUntilDistance (GeoHash_of_string ''3f'') 620 North 1 = Some 1"
    by (rule count_stops_after_one_step[where hash' = "''3g''"])
       (use neighbors_around_3f points_in_range_3g in simp_all)
  show "countHashesUntilDistance (GeoHash_of_string ''3f'') 620 South 1 = Some 2"
    by (rule count_stops_after_two_steps[where ?h1.0 = "''3c''" and ?h2.0 = "''3b''"])
       (use neighbors_around_3f points_in_range_3c points_in_range_3b in simp_all)
  show "countHashesUntilDistance (GeoHash_of_string ''3f'') 620 West 1 = Some 2"
    by (rule count_stops_after_two_steps[where ?h1.0 = "''3d''" and ?h2.0 = "''36''"])
       (use neighbors_around_3f points_in_range_3d points_in_range_36 in simp_all)
qed

lemma candidates_around_3f:
  "candidateHashes (GeoHash_of_string ''3f'') 620 1 =
     Some (map GeoHash_of_string
       [''3f'', ''3d'', ''64'', ''36'', ''66'', ''3c'', ''39'', ''61'', ''33'', ''63''])"
  unfolding candidateHashes_def extents_around_3f
  by (simp add: neighbors_around_3f numeral_2_eq_2)

text \<open>
  Claim C4 at a concrete centre: around the cell \<open>3f\<close>, with distance 620 km and one
  required point, the extent to the north is 1 and the extent to the south is 2. The
  candidates are the row of the centre and one row south of it; the cell \<open>3b\<close>, two steps
  south of the centre and so within the south extent, is not a candidate.
\<close>

theorem south_extent_does_not_reach_candidates:
  "countHashesUntilDistance (GeoHash_of_string ''3f'') 620 North 1 = Some 1 \<and>
   countHashesUntilDistance (GeoHash_of_string ''3f'') 620 South 1 = Some 2 \<and>
   getNeighborAsHashString (Card South) ''3f'' = Some ''3c'' \<and>
   getNeighborAsHashString (Card South) ''3c'' = Some ''3b'' \<and>
   map_option (map geohash) (candidateHashes (GeoHash_of_string ''3f'') 620 1) =
     Some [''3f'', ''3d'', ''64'', ''36'', ''66'', ''3c'', ''39'', ''61'', ''33'', ''63''] \<and>
   ''3b'' \<notin> set [''3f'', ''3d'', ''64'', ''36'', ''66'', ''3c'', ''39'', ''61'', ''33'', ''63'']"
  unfolding extents_around_3f candidates_around_3f
  by (simp add: neighbors_around_3f)

section \<open>Scenarios of the repository's tests\<close>

text \<open>
  The model computes the values that the tests of the repository expect: the hash of
  precision 5 of the point (42.355368, -71.060506), and the eight neighbours of \<open>dqcjqcps\<close>.
\<close>

lemma test_geohash_calculation: "hashString (mkCoord 42.355368 (-71.060506)) 5 = ''drt2y''"
  by code_simp

lemma test_geohash_neighbors:
  "getNeighborAsHashString (Card North) ''dqcjqcps'' = Some ''dqcjqcpt''"
  "getNeighborAsHashString (Card South) ''dqcjqcps'' = Some ''dqcjqcpe''"
  "getNeighborAsHashString (Card East) ''dqcjqcps'' = Some ''dqcjqcpu''"
  "getNeighborAsHashString (Card West) ''dqcjqcps'' = Some ''dqcjqcpk''"
  "getNeighborAsHashString NorthEast ''dqcjqcps'' = Some ''dqcjqcpv''"
  "getNeighborAsHashString SouthEast ''dqcjqcps'' = Some ''dqcjqcpg''"
  "getNeighborAsHashString NorthWest ''dqcjqcps'' = Some ''dqcjqcpm''"
  "getNeighborAsHashString SouthWest ''dqcjqcps'' = Some ''dqcjqcp7''"
  by code_simp+

end
